theory Spec2Isabelle
  imports Complex_Main "HOL-Library.Log_Nat"
begin

section \<open>Numbers\<close>

text \<open>
  A JavaScript number is an IEEE-754 double. The finite doubles are modelled by the
  rationals they denote, next to the two infinities and \<open>NaN\<close>. The two zeros are one
  value here: every comparison of the program treats them as equal, and the program
  never divides by a zero.
\<close>

datatype number = Finite rat | PosInf | NegInf | NaN

text \<open>
  Every arithmetic operation computes the exact result and rounds it to the nearest
  double, a tie going to the double with the even significand. For a positive \<open>x\<close>,
  \<open>ilog2 x\<close> is the exponent \<open>e\<close> with \<open>2 ^ e \<le> x < 2 ^ (e + 1)\<close>. Around \<open>x\<close> the
  doubles are the multiples of \<open>ulp x\<close>: 53 significant bits for the normal numbers,
  the fixed spacing \<open>2 ^ -1074\<close> below \<open>2 ^ -1022\<close>. A rounded magnitude of \<open>2 ^ 1024\<close>
  or more is an infinity.
\<close>

definition ilog2 :: "rat \<Rightarrow> int" where
  "ilog2 x =
     (let d = bitlen (fst (quotient_of x)) - bitlen (snd (quotient_of x))
      in if 2 powi d \<le> x then d else d - 1)"

definition round_half_even :: "rat \<Rightarrow> int" where
  "round_half_even x =
     (let f = \<lfloor>x\<rfloor>; r = x - of_int f
      in if r < 1 / 2 then f
         else if 1 / 2 < r then f + 1
         else if even f then f else f + 1)"

definition ulp :: "rat \<Rightarrow> rat" where
  "ulp x = 2 powi (max (ilog2 \<bar>x\<bar>) (- 1022) - 52)"

definition round_unbounded :: "rat \<Rightarrow> rat" where
  "round_unbounded x = (if x = 0 then 0 else of_int (round_half_even (x / ulp x)) * ulp x)"

definition to_double :: "rat \<Rightarrow> number" where
  "to_double x =
     (let v = round_unbounded x
      in if v = 0 then Finite 0
         else if 1024 \<le> ilog2 \<bar>v\<bar> then (if 0 < v then PosInf else NegInf)
         else Finite v)"

text \<open>The sign of a number that is not \<open>NaN\<close>, for the rules of the infinities.\<close>

fun is_positive :: "number \<Rightarrow> bool" where
  "is_positive (Finite x) = (0 < x)"
| "is_positive PosInf = True"
| "is_positive NegInf = False"
| "is_positive NaN = False"

fun negate :: "number \<Rightarrow> number" where
  "negate (Finite x) = Finite (- x)"
| "negate PosInf = NegInf"
| "negate NegInf = PosInf"
| "negate NaN = NaN"

text \<open>\<open>a + b\<close>\<close>

fun js_add :: "number \<Rightarrow> number \<Rightarrow> number" where
  "js_add NaN b = NaN"
| "js_add a NaN = NaN"
| "js_add (Finite x) (Finite y) = to_double (x + y)"
| "js_add PosInf NegInf = NaN"
| "js_add NegInf PosInf = NaN"
| "js_add PosInf b = PosInf"
| "js_add NegInf b = NegInf"
| "js_add a PosInf = PosInf"
| "js_add a NegInf = NegInf"

text \<open>\<open>a - b\<close>\<close>

definition js_sub :: "number \<Rightarrow> number \<Rightarrow> number" where
  "js_sub a b = js_add a (negate b)"

text \<open>\<open>a * b\<close>\<close>

fun js_mul :: "number \<Rightarrow> number \<Rightarrow> number" where
  "js_mul NaN b = NaN"
| "js_mul a NaN = NaN"
| "js_mul (Finite x) (Finite y) = to_double (x * y)"
| "js_mul a b =
     (if a = Finite 0 \<or> b = Finite 0 then NaN
      else if is_positive a = is_positive b then PosInf else NegInf)"

text \<open>
  \<open>a / b\<close>. The program divides by a positive total only. A zero divisor is taken as
  the positive zero.
\<close>

fun js_div :: "number \<Rightarrow> number \<Rightarrow> number" where
  "js_div NaN b = NaN"
| "js_div a NaN = NaN"
| "js_div (Finite x) (Finite y) =
     (if y = 0 then (if x = 0 then NaN else if 0 < x then PosInf else NegInf)
      else to_double (x / y))"
| "js_div (Finite x) b = Finite 0"
| "js_div a (Finite y) = (if is_positive a = (0 \<le> y) then PosInf else NegInf)"
| "js_div a b = NaN"

text \<open>\<open>a > b\<close>, false when either side is \<open>NaN\<close>.\<close>

fun js_gt :: "number \<Rightarrow> number \<Rightarrow> bool" where
  "js_gt NaN b = False"
| "js_gt a NaN = False"
| "js_gt (Finite x) (Finite y) = (y < x)"
| "js_gt PosInf b = (b \<noteq> PosInf)"
| "js_gt NegInf b = False"
| "js_gt a PosInf = False"
| "js_gt a NegInf = True"

text \<open>\<open>a === b\<close> on numbers: \<open>NaN\<close> equals nothing.\<close>

definition js_eq :: "number \<Rightarrow> number \<Rightarrow> bool" where
  "js_eq a b \<longleftrightarrow> a \<noteq> NaN \<and> a = b"

text \<open>
  \<open>Math.round\<close> returns the integer nearest to its argument, a tie going towards
  \<open>+\<infinity>\<close>; the result is exact, not a rounded sum. The infinities and \<open>NaN\<close> are
  returned as they are.
\<close>

fun Math_round :: "number \<Rightarrow> number" where
  "Math_round (Finite x) = Finite (of_int \<lfloor>x + 1 / 2\<rfloor>)"
| "Math_round a = a"

section \<open>Data model\<close>

text \<open>
  The generative-model client (\<open>generateInsights\<close>) parses the service's JSON text and then
  repairs the parsed object in place. The parsed object is modelled by the records below,
  which follow \<open>types.ts\<close>: a \<open>SkillDistribution\<close> with the two numbers \<open>technical\<close> and
  \<open>soft\<close>, and \<open>KeyInsight\<close> entries with \<open>icon\<close>, \<open>text\<close> and \<open>title\<close>.

  \<^item> A distribution object has both of its numbers, as the response schema requires.
    \<open>JSON.parse\<close> gives doubles; a literal beyond the range of the doubles, such as
    \<open>1e400\<close>, is read as an infinity.
  \<^item> Strings are lists of 8-bit characters (the Latin-1 range of UTF-16 code units).
  \<^item> A property that may be absent from an object (or hold a falsy \<open>null\<close>/\<open>undefined\<close>)
    is an \<open>option\<close>. The raw entries carry no \<open>title\<close> by their declared type
    (\<open>Omit<KeyInsight, 'title'>\<close>), but the service may send one, so \<open>title\<close> is optional.
  \<^item> \<open>icon\<close> is a string: the parsed JSON is not checked against the declared union type.
  \<^item> An element of the \<open>keyInsights\<close> array is \<open>null\<close>, or an entry (an object whose
    \<open>icon\<close> is a string), or any other JSON value: one without a string \<open>icon\<close>.
\<close>

record SkillDistribution =
  technical :: number
  soft :: number

record KeyInsight =
  icon :: string
  "text" :: string
  title :: "string option"

datatype element = Null | Other | Entry KeyInsight

record InsightData =
  skillDistribution :: "SkillDistribution option"
  keyInsights :: "element list option"

text \<open>
  The values the clients can throw or be rejected with. Only an \<open>Error\<close> made by a client
  itself carries a message in the model; the messages of the platform's own errors (a failed
  request, a body that is not JSON, a property read on \<open>null\<close>) are not modelled.
\<close>

datatype thrown = Error string | TypeError | SyntaxError

section \<open>Built-in operations on strings\<close>

text \<open>
  \<open>String.prototype.trim\<close> removes the white space and line terminators at both ends.
  In the 8-bit range these are TAB, LF, VT, FF, CR, SPACE and NO-BREAK SPACE.
\<close>

definition is_white_space :: "char \<Rightarrow> bool" where
  "is_white_space c \<longleftrightarrow>
     c \<in> {CHR 0x09, CHR 0x0A, CHR 0x0B, CHR 0x0C, CHR 0x0D, CHR 0x20, CHR 0xA0}"

definition trim :: "string \<Rightarrow> string" where
  "trim s = rev (dropWhile is_white_space (rev (dropWhile is_white_space s)))"

text \<open>
  \<open>s.split(sep)\<close> for a separator of one character: the segments between the occurrences
  of the separator, in order; \<open>n\<close> occurrences give \<open>n + 1\<close> segments, and the empty string
  gives the one empty segment.
\<close>

fun split :: "char \<Rightarrow> string \<Rightarrow> string list" where
  "split sep [] = [[]]"
| "split sep (c # cs) =
     (if c = sep then [] # split sep cs
      else (case split sep cs of
              [] \<Rightarrow> [[c]]
            | s # ss \<Rightarrow> (c # s) # ss))"

text \<open>\<open>xs.filter(Boolean)\<close> on strings drops the empty ones, the only falsy strings.\<close>

definition filter_Boolean :: "string list \<Rightarrow> string list" where
  "filter_Boolean xs = filter (\<lambda>s. s \<noteq> []) xs"

section \<open>The response normalizer of the generative-model client\<close>

definition insightTitles :: "string \<rightharpoonup> string" where
  "insightTitles = map_of
     [(''skills'', ''Skill Requirements''),
      (''leadership'', ''Leadership Experience''),
      (''tenure'', ''Employee Tenure''),
      (''expertise'', ''Required Expertise'')]"

definition orderedIcons :: "string list" where
  "orderedIcons = [''skills'', ''leadership'', ''tenure'', ''expertise'']"

text \<open>
  \<open>new Map(data.keyInsights.map(k => [k.icon, k]))\<close>: the elements are inserted from first
  to last, and inserting under a key that is present replaces its value. An element that
  is not an entry goes under a key that is not a string; the lookups below ask for
  strings only, so the model leaves it out of the map. (Reading \<open>k.icon\<close> of a \<open>null\<close>
  element throws; \<open>normalize\<close> below has that case.)
\<close>

definition insightsMap :: "element list \<Rightarrow> (string \<rightharpoonup> KeyInsight)" where
  "insightsMap ks =
     foldl (\<lambda>m k. case k of Entry insight \<Rightarrow> m(icon insight \<mapsto> insight) | _ \<Rightarrow> m)
       Map.empty ks"

text \<open>
  \<open>orderedIcons.map(icon => ...).filter(Boolean)\<close>: an icon without an entry gives \<open>null\<close>,
  which the filter drops; an icon with an entry gives a copy of the entry whose title is
  \<open>insightTitles[icon]\<close>.
\<close>

definition orderedInsights :: "element list \<Rightarrow> KeyInsight list" where
  "orderedInsights ks =
     List.map_filter
       (\<lambda>i. case insightsMap ks i of
              None \<Rightarrow> None
            | Some insight \<Rightarrow> Some (insight\<lparr>title := insightTitles i\<rparr>))
       orderedIcons"

text \<open>
  The repair of the distribution, the last statements of the \<open>try\<close> block: \<open>total\<close> is
  \<open>technical + soft\<close>; a positive total other than 100 rescales, a zero total gives 50/50,
  and any other total leaves the distribution as it is.
\<close>

definition normalizeDistribution :: "SkillDistribution \<Rightarrow> SkillDistribution" where
  "normalizeDistribution sd =
     (let total = js_add (technical sd) (soft sd) in
      if js_gt total (Finite 0) \<and> \<not> js_eq total (Finite 100) then
        (let t = Math_round (js_mul (js_div (technical sd) total) (Finite 100))
         in sd\<lparr>technical := t, soft := js_sub (Finite 100) t\<rparr>)
      else if js_eq total (Finite 0) then sd\<lparr>technical := Finite 50, soft := Finite 50\<rparr>
      else sd)"

text \<open>
  The statements of the \<open>try\<close> block after \<open>JSON.parse\<close>: the guard on the two properties
  and on the number of raw elements, the construction of the map, which throws a
  \<open>TypeError\<close> at a \<open>null\<close> element, the reordering with its own length check, and the two
  assignments to \<open>data\<close>. A \<open>throw\<close> is \<open>Inl\<close> of the value thrown.
\<close>

definition normalize :: "InsightData \<Rightarrow> thrown + InsightData" where
  "normalize data =
     (case skillDistribution data of
        None \<Rightarrow> Inl (Error ''Invalid data structure received from API.'')
      | Some sd \<Rightarrow>
     (case keyInsights data of
        None \<Rightarrow> Inl (Error ''Invalid data structure received from API.'')
      | Some ks \<Rightarrow>
          if length ks < 4 then Inl (Error ''Invalid data structure received from API.'')
          else if Null \<in> set ks then Inl TypeError
          else if length (orderedInsights ks) < 4
          then Inl (Error ''API did not return all required key insights.'')
          else Inr (data\<lparr>keyInsights := Some (map Entry (orderedInsights ks)),
                         skillDistribution := Some (normalizeDistribution sd)\<rparr>)))"

text \<open>
  The whole client. The request and the parser are outside the program, so their outcomes
  are inputs: \<open>response\<close> is the text of the service's reply, or \<open>Inl\<close> of the error the
  request failed with; \<open>JSON_parse\<close> gives the parsed object, or \<open>Inl\<close> of the error it
  throws. The \<open>catch\<close> clause replaces whatever was thrown by one new error. The job title
  and the job level only fill the prompt of the request, so they are not arguments here.
  A text that parses to a value other than an object has neither of the two properties, so
  the client fails on it as it does on the record with both properties absent.
\<close>

definition failure_message :: string where
  "failure_message =
     ''Failed to generate insights. The AI model may be temporarily unavailable. Please try again later.''"

definition generateInsights ::
  "string + string \<Rightarrow> (string \<Rightarrow> string + InsightData) \<Rightarrow> string + InsightData" where
  "generateInsights response JSON_parse =
     (case response of
        Inl e \<Rightarrow> Inl failure_message
      | Inr response_text \<Rightarrow>
     (case JSON_parse (trim response_text) of
        Inl e \<Rightarrow> Inl failure_message
      | Inr data \<Rightarrow>
     (case normalize data of
        Inl e \<Rightarrow> Inl failure_message
      | Inr result \<Rightarrow> Inr result)))"

section \<open>The bullet split of the presentation layer\<close>

text \<open>\<open>insight.text.split('*').map(s => s.trim()).filter(Boolean)\<close>\<close>

definition points :: "string \<Rightarrow> string list" where
  "points txt = filter_Boolean (map trim (split CHR ''*'' txt))"

section \<open>The HTTP client\<close>

text \<open>
  \<open>getJobInsights\<close> posts the request and reads the reply as JSON. A parsed JSON value is
  one of the following; the members of an object are kept in the order of the text.
\<close>

datatype json =
  JNull
| JBool bool
| JNum number
| JStr string
| JArr "json list"
| JObj "(string \<times> json) list"

text \<open>
  The \<open>Response\<close> of \<open>fetch\<close>: the status code, the status text, and the outcome of
  \<open>response.json()\<close>. Its \<open>ok\<close> property holds for the status codes 200 to 299.
\<close>

record Response =
  status :: nat
  statusText :: string
  json :: "thrown + json"

definition ok :: "Response \<Rightarrow> bool" where
  "ok response \<longleftrightarrow> 200 \<le> status response \<and> status response \<le> 299"

text \<open>
  \<open>v.detail\<close>: reading a property of \<open>null\<close> throws a \<open>TypeError\<close>; an object gives the value
  of its member of that name (the last one, when the text repeats the name) or
  \<open>undefined\<close>, here \<open>None\<close>; any other JSON value has no such property.
\<close>

fun get_property :: "json \<Rightarrow> string \<Rightarrow> thrown + json option" where
  "get_property JNull name = Inl TypeError"
| "get_property (JObj members) name = Inr (map_of (rev members) name)"
| "get_property v name = Inr None"

text \<open>The truthiness that \<open>||\<close> tests: of the numbers, zero and \<open>NaN\<close> are falsy.\<close>

fun truthy :: "json option \<Rightarrow> bool" where
  "truthy None = False"
| "truthy (Some JNull) = False"
| "truthy (Some (JBool b)) = b"
| "truthy (Some (JNum n)) = (n \<noteq> Finite 0 \<and> n \<noteq> NaN)"
| "truthy (Some (JStr s)) = (s \<noteq> [])"
| "truthy (Some (JArr vs)) = True"
| "truthy (Some (JObj members)) = True"

text \<open>
  \<open>new Error(v)\<close> has the message \<open>String(v)\<close>, which is the string itself when \<open>v\<close> is a
  string. The conversion of the other values is the parameter \<open>ToString\<close>.
\<close>

fun String_of :: "(json \<Rightarrow> string) \<Rightarrow> json \<Rightarrow> string" where
  "String_of ToString (JStr s) = s"
| "String_of ToString v = ToString v"

text \<open>
  The client. \<open>fetched\<close> is the outcome of \<open>fetch\<close>: the response, or \<open>Inl\<close> of what the
  request was rejected with. The \<open>catch\<close> clause throws again what it caught. A reply that
  is \<open>ok\<close> is returned as parsed, unchecked.
\<close>

definition getJobInsights :: "thrown + Response \<Rightarrow> (json \<Rightarrow> string) \<Rightarrow> thrown + json" where
  "getJobInsights fetched ToString =
     (case fetched of
        Inl e \<Rightarrow> Inl e
      | Inr response \<Rightarrow>
          if \<not> ok response then
            (case json response of
               Inl e \<Rightarrow> Inl e
             | Inr errorData \<Rightarrow>
                 (case get_property errorData ''detail'' of
                    Inl e \<Rightarrow> Inl e
                  | Inr detail \<Rightarrow>
                      if truthy detail
                      then Inl (Error (String_of ToString (the detail)))
                      else Inl (Error (''API error: '' @ statusText response))))
          else json response)"

section \<open>Vocabulary of the properties\<close>

text \<open>The key of an array element: its \<open>icon\<close>, when the element is an entry.\<close>

fun icon_of :: "element \<Rightarrow> string option" where
  "icon_of (Entry insight) = Some (icon insight)"
| "icon_of k = None"

fun title_of :: "element \<Rightarrow> string option" where
  "title_of (Entry insight) = title insight"
| "title_of k = None"

text \<open>A raw response has a category entry for a key.\<close>

definition has_entry :: "InsightData \<Rightarrow> string \<Rightarrow> bool" where
  "has_entry data key =
     (case keyInsights data of
        None \<Rightarrow> False
      | Some ks \<Rightarrow> Some key \<in> icon_of ` set ks)"

text \<open>The array of a raw response has a \<open>null\<close> element.\<close>

definition has_null :: "InsightData \<Rightarrow> bool" where
  "has_null data =
     (case keyInsights data of
        None \<Rightarrow> False
      | Some ks \<Rightarrow> Null \<in> set ks)"

text \<open>
  An already normalized result: the four categories in the fixed order, each with its
  fixed title, and a distribution that sums to 100, the sum being the program's own
  \<open>technical + soft\<close>. A pair of doubles whose exact sum is 100 is such a distribution.
\<close>

definition normalized :: "InsightData \<Rightarrow> bool" where
  "normalized data =
     (case skillDistribution data of
        None \<Rightarrow> False
      | Some sd \<Rightarrow>
     (case keyInsights data of
        None \<Rightarrow> False
      | Some ks \<Rightarrow>
          map icon_of ks =
            [Some ''skills'', Some ''leadership'', Some ''tenure'', Some ''expertise''] \<and>
          map title_of ks =
            [Some ''Skill Requirements'', Some ''Leadership Experience'',
             Some ''Employee Tenure'', Some ''Required Expertise''] \<and>
          js_add (technical sd) (soft sd) = Finite 100))"

text \<open>
  A value of the number type: a rational stands for a double only if rounding leaves it
  as it is.
\<close>

fun is_double :: "number \<Rightarrow> bool" where
  "is_double (Finite x) = (to_double x = Finite x)"
| "is_double a = True"

text \<open>\<open>a >= 0\<close>\<close>

fun non_negative :: "number \<Rightarrow> bool" where
  "non_negative (Finite x) = (0 \<le> x)"
| "non_negative PosInf = True"
| "non_negative a = False"

fun is_finite :: "number \<Rightarrow> bool" where
  "is_finite (Finite x) = True"
| "is_finite a = False"

text \<open>\<open>segments.join(sep)\<close>, the inverse of \<open>split\<close>.\<close>

fun join :: "char \<Rightarrow> string list \<Rightarrow> string" where
  "join sep [] = []"
| "join sep [s] = s"
| "join sep (s # t # ss) = s @ sep # join sep (t # ss)"

section \<open>Facts about the operations on strings\<close>

lemma split_not_Nil: "split sep s \<noteq> []"
  by (induction s) (auto split: list.splits)

lemma join_split: "join sep (split sep s) = s"
proof (induction s)
  case Nil
  then show ?case by simp
next
  case (Cons c cs)
  obtain seg segs where eq: "split sep cs = seg # segs"
    using split_not_Nil [of sep cs] by (cases "split sep cs") auto
  from Cons eq show ?case
    by (cases segs) auto
qed

lemma split_free: "seg \<in> set (split sep s) \<Longrightarrow> sep \<notin> set seg"
  by (induction s arbitrary: seg) (auto split: if_splits list.splits)

lemma split_no_sep: "sep \<notin> set s \<Longrightarrow> split sep s = [s]"
  by (induction s) auto

lemma trim_decompose:
  "\<exists>pre post. s = pre @ trim s @ post \<and>
     (\<forall>c\<in>set pre. is_white_space c) \<and> (\<forall>c\<in>set post. is_white_space c)"
proof -
  let ?P = is_white_space
  let ?m = "dropWhile ?P s"
  have a: "s = takeWhile ?P s @ ?m"
    by simp
  have "rev ?m = takeWhile ?P (rev ?m) @ dropWhile ?P (rev ?m)"
    by simp
  then have "rev (rev ?m) = rev (takeWhile ?P (rev ?m) @ dropWhile ?P (rev ?m))"
    by (rule arg_cong)
  then have b: "?m = trim s @ rev (takeWhile ?P (rev ?m))"
    unfolding trim_def rev_append rev_rev_ident .
  have "s = takeWhile ?P s @ trim s @ rev (takeWhile ?P (rev ?m))"
    using a b by simp
  moreover have "\<forall>c\<in>set (takeWhile ?P s). ?P c"
    by (auto dest: set_takeWhileD)
  moreover have "\<forall>c\<in>set (rev (takeWhile ?P (rev ?m))). ?P c"
    by (auto dest: set_takeWhileD)
  ultimately show ?thesis by blast
qed

lemma last_dropWhile_keep: "dropWhile P xs \<noteq> [] \<Longrightarrow> last (dropWhile P xs) = last xs"
proof -
  assume n: "dropWhile P xs \<noteq> []"
  have "last (takeWhile P xs @ dropWhile P xs) = last (dropWhile P xs)"
    using n by (rule last_appendR)
  then show ?thesis by simp
qed

lemma trim_ends:
  assumes "trim s \<noteq> []"
  shows "\<not> is_white_space (hd (trim s)) \<and> \<not> is_white_space (last (trim s))"
proof -
  let ?P = is_white_space
  let ?m = "dropWhile ?P s"
  let ?r = "dropWhile ?P (rev ?m)"
  have r: "?r \<noteq> []"
    using assms unfolding trim_def rev_is_Nil_conv .
  then have "\<not> ?P (hd ?r)"
    by (rule hd_dropWhile)
  then have l: "\<not> ?P (last (trim s))"
    using r by (simp add: trim_def last_rev)
  have m: "?m \<noteq> []"
  proof
    assume "?m = []"
    then have "?r = []" by (simp only: rev.simps dropWhile.simps)
    with r show False by (rule notE)
  qed
  then have hm: "\<not> ?P (hd ?m)"
    by (rule hd_dropWhile)
  have "hd (trim s) = last ?r"
    using r by (simp add: trim_def hd_rev)
  also have "\<dots> = last (rev ?m)"
    using r by (rule last_dropWhile_keep)
  also have "\<dots> = hd ?m"
    using m by (simp add: last_rev)
  finally show ?thesis
    using hm l by simp
qed

lemma dropWhile_all: "(dropWhile P xs = []) = (\<forall>x\<in>set xs. P x)"
  by (induction xs) auto

lemma trim_Nil_iff: "trim s = [] \<longleftrightarrow> (\<forall>c\<in>set s. is_white_space c)"
proof
  assume "trim s = []"
  then have "dropWhile is_white_space (rev (dropWhile is_white_space s)) = []"
    by (simp add: trim_def)
  then have "\<forall>c\<in>set (rev (dropWhile is_white_space s)). is_white_space c"
    by (simp only: dropWhile_all)
  then have "dropWhile is_white_space s = []"
    using hd_dropWhile [of is_white_space s] by (cases "dropWhile is_white_space s") auto
  then show "\<forall>c\<in>set s. is_white_space c"
    by (simp only: dropWhile_all)
next
  assume "\<forall>c\<in>set s. is_white_space c"
  then have "dropWhile is_white_space s = []"
    by (simp only: dropWhile_all)
  then show "trim s = []"
    by (simp only: trim_def rev.simps dropWhile.simps)
qed

section \<open>Facts about the rounding to doubles\<close>

lemma bitlen_rat_bounds:
  assumes "0 < a"
  shows "2 powi (bitlen a - 1) \<le> (of_int a :: rat) \<and> (of_int a :: rat) < 2 powi bitlen a"
proof -
  have pos: "1 \<le> bitlen a"
    using assms bitlen_eq_zero_iff [of a] bitlen_nonneg [of a] by linarith
  have b: "2 ^ nat (bitlen a - 1) \<le> a \<and> a < 2 ^ nat (bitlen a)"
    using assms by (rule bitlen_bounds)
  have "(of_int (2 ^ nat (bitlen a - 1)) :: rat) \<le> of_int a"
    using b by (simp only: of_int_le_iff)
  moreover have "(of_int a :: rat) < of_int (2 ^ nat (bitlen a))"
    using b by (simp only: of_int_less_iff)
  ultimately show ?thesis
    using pos by (simp add: power_int_nonneg_exp)
qed

lemma ilog2_bounds:
  assumes "0 < x"
  shows "2 powi ilog2 x \<le> x \<and> x < 2 powi (ilog2 x + 1)"
proof -
  obtain a b where q: "quotient_of x = (a, b)"
    by (cases "quotient_of x")
  have b: "0 < b"
    using q by (rule quotient_of_denom_pos)
  have x: "x = of_int a / of_int b"
    using q by (rule quotient_of_div)
  have a: "0 < a"
    using assms b unfolding x by (simp add: zero_less_divide_iff)
  let ?d = "bitlen a - bitlen b"
  note A = bitlen_rat_bounds [OF a]
  note B = bitlen_rat_bounds [OF b]
  have rb: "(0::rat) < of_int b"
    using b by simp
  have upper: "x < 2 powi (?d + 1)"
  proof -
    have "of_int a / of_int b < 2 powi bitlen a / (2 powi (bitlen b - 1) :: rat)"
      using A B a by (intro frac_less) simp_all
    also have "\<dots> = 2 powi (bitlen a - (bitlen b - 1))"
      by (simp add: power_int_diff)
    finally show ?thesis
      unfolding x by (simp add: algebra_simps)
  qed
  have lower: "2 powi (?d - 1) \<le> x"
  proof -
    have "2 powi (bitlen a - 1) / (2 powi bitlen b :: rat) \<le> of_int a / of_int b"
      using A B rb a by (intro frac_le) simp_all
    moreover have "2 powi (bitlen a - 1) / (2 powi bitlen b :: rat) = 2 powi (bitlen a - 1 - bitlen b)"
      by (simp add: power_int_diff)
    ultimately show ?thesis
      unfolding x by (simp add: algebra_simps)
  qed
  have def: "ilog2 x = (if 2 powi ?d \<le> x then ?d else ?d - 1)"
    by (simp add: ilog2_def q Let_def)
  show ?thesis
  proof (cases "2 powi ?d \<le> x")
    case True
    with upper def show ?thesis by simp
  next
    case False
    with lower def show ?thesis by simp
  qed
qed

lemma ilog2_unique:
  assumes "2 powi e \<le> x" "x < 2 powi (e + 1)"
  shows "ilog2 x = e"
proof -
  have pos: "0 < x"
    using assms(1) by (rule less_le_trans [rotated]) simp
  note b = ilog2_bounds [OF pos]
  have "(2::rat) powi e < 2 powi (ilog2 x + 1)"
    using assms(1) b by linarith
  then have "e < ilog2 x + 1"
    by (metis less_irrefl not_less one_le_numeral power_int_increasing leD)
  moreover have "(2::rat) powi ilog2 x < 2 powi (e + 1)"
    using assms(2) b by linarith
  then have "ilog2 x < e + 1"
    by (metis less_irrefl not_less one_le_numeral power_int_increasing leD)
  ultimately show ?thesis by simp
qed

lemma ilog2_mono:
  assumes "0 < x" "x \<le> y"
  shows "ilog2 x \<le> ilog2 y"
proof (rule ccontr)
  assume "\<not> ilog2 x \<le> ilog2 y"
  then have "ilog2 y + 1 \<le> ilog2 x"
    by simp
  then have "(2::rat) powi (ilog2 y + 1) \<le> 2 powi ilog2 x"
    by (intro power_int_increasing) simp_all
  moreover have "y < 2 powi (ilog2 y + 1)" "2 powi ilog2 x \<le> x"
    using ilog2_bounds [of x] ilog2_bounds [of y] assms by simp_all
  ultimately show False
    using assms(2) by linarith
qed

lemma round_half_even_of_int: "round_half_even (of_int k) = k"
  by (simp add: round_half_even_def)

lemma round_half_even_mono:
  assumes "x \<le> y"
  shows "round_half_even x \<le> round_half_even y"
proof -
  have fl: "\<lfloor>x\<rfloor> \<le> \<lfloor>y\<rfloor>"
    using assms by (rule floor_mono)
  have lo: "\<lfloor>z\<rfloor> \<le> round_half_even z" and hi: "round_half_even z \<le> \<lfloor>z\<rfloor> + 1" for z
    by (simp_all add: round_half_even_def Let_def)
  show ?thesis
  proof (cases "\<lfloor>x\<rfloor> = \<lfloor>y\<rfloor>")
    case True
    then have "x - of_int \<lfloor>x\<rfloor> \<le> y - of_int \<lfloor>y\<rfloor>"
      using assms by simp
    then show ?thesis
      using True by (auto simp: round_half_even_def Let_def)
  next
    case False
    with fl have "\<lfloor>x\<rfloor> + 1 \<le> \<lfloor>y\<rfloor>"
      by simp
    then show ?thesis
      using hi [of x] lo [of y] by linarith
  qed
qed


lemma round_half_even_nonneg: "0 \<le> x \<Longrightarrow> 0 \<le> round_half_even x"
  using round_half_even_mono [of 0 x] round_half_even_of_int [of 0] by simp

lemma pow2_add: "(2::rat) powi (m + n) = 2 powi m * 2 powi n"
  by (rule power_int_add) simp

lemma ulp_pos: "0 < ulp x"
  by (simp add: ulp_def)

lemma round_unbounded_upper:
  assumes "0 < x"
  shows "round_unbounded x \<le> 2 powi (max (ilog2 x) (- 1022) + 1)"
proof -
  let ?E = "max (ilog2 x) (- 1022)"
  have u: "ulp x = 2 powi (?E - 52)"
    using assms by (simp add: ulp_def)
  have "x < 2 powi (ilog2 x + 1)"
    using ilog2_bounds [OF assms] by simp
  also have "\<dots> \<le> 2 powi (?E + 1)"
    by (intro power_int_increasing) simp_all
  finally have "x / ulp x \<le> 2 powi (?E + 1) / ulp x"
    using ulp_pos [of x] by (simp add: divide_right_mono)
  also have "\<dots> = 2 powi 53"
    unfolding u by (simp flip: power_int_diff)
  also have "\<dots> = of_int (2 ^ 53)"
    by simp
  finally have "round_half_even (x / ulp x) \<le> 2 ^ 53"
    using round_half_even_mono round_half_even_of_int by metis
  then have "(of_int (round_half_even (x / ulp x)) :: rat) \<le> of_int (2 ^ 53)"
    by (simp only: of_int_le_iff)
  then have "of_int (round_half_even (x / ulp x)) * ulp x \<le> of_int (2 ^ 53) * ulp x"
    using ulp_pos [of x] by (simp add: mult_right_mono)
  also have "of_int (2 ^ 53) * ulp x = 2 powi 53 * 2 powi (?E - 52)"
    unfolding u by simp
  also have "\<dots> = 2 powi (53 + (?E - 52))"
    by (simp only: pow2_add)
  also have "53 + (?E - 52) = ?E + 1"
    by simp
  finally show ?thesis
    using assms by (simp add: round_unbounded_def)
qed

lemma round_unbounded_lower:
  assumes "0 < x" "- 1022 \<le> ilog2 x"
  shows "2 powi ilog2 x \<le> round_unbounded x"
proof -
  let ?E = "ilog2 x"
  have u: "ulp x = 2 powi (?E - 52)"
    using assms by (simp add: ulp_def max_def)
  have "2 powi ?E / ulp x \<le> x / ulp x"
    using ilog2_bounds [OF assms(1)] ulp_pos [of x] by (simp add: divide_right_mono)
  moreover have "2 powi ?E / ulp x = 2 powi 52"
    unfolding u by (simp flip: power_int_diff)
  moreover have "(2::rat) powi 52 = of_int (2 ^ 52)"
    by simp
  ultimately have "of_int (2 ^ 52) \<le> x / ulp x"
    by simp
  then have "2 ^ 52 \<le> round_half_even (x / ulp x)"
    using round_half_even_mono round_half_even_of_int by metis
  then have "(of_int (2 ^ 52) :: rat) \<le> of_int (round_half_even (x / ulp x))"
    by (simp only: of_int_le_iff)
  then have "of_int (2 ^ 52) * ulp x \<le> of_int (round_half_even (x / ulp x)) * ulp x"
    using ulp_pos [of x] by (simp add: mult_right_mono)
  moreover have "of_int (2 ^ 52) * ulp x = 2 powi 52 * 2 powi (?E - 52)"
    unfolding u by simp
  moreover have "2 powi 52 * 2 powi (?E - 52) = (2::rat) powi ?E"
    using pow2_add [of 52 "?E - 52"] by simp
  ultimately show ?thesis
    using assms by (simp add: round_unbounded_def)
qed

lemma round_unbounded_nonneg:
  assumes "0 \<le> x"
  shows "0 \<le> round_unbounded x"
proof (cases "x = 0")
  case True
  then show ?thesis by (simp add: round_unbounded_def)
next
  case False
  have "0 \<le> x / ulp x"
    using assms ulp_pos [of x] by simp
  then have "0 \<le> round_half_even (x / ulp x)"
    by (rule round_half_even_nonneg)
  then show ?thesis
    using False ulp_pos [of x] by (simp add: round_unbounded_def)
qed

lemma round_unbounded_mono:
  assumes "0 \<le> x" "x \<le> y"
  shows "round_unbounded x \<le> round_unbounded y"
proof (cases "x = 0")
  case True
  then show ?thesis
    using round_unbounded_nonneg [of y] assms by (simp add: round_unbounded_def)
next
  case False
  with assms have x: "0 < x" and y: "0 < y"
    by simp_all
  let ?Ex = "max (ilog2 x) (- 1022)"
  let ?Ey = "max (ilog2 y) (- 1022)"
  have le: "?Ex \<le> ?Ey"
    using ilog2_mono [OF x assms(2)] by simp
  show ?thesis
  proof (cases "?Ex = ?Ey")
    case True
    then have u: "ulp x = ulp y"
      using x y by (simp add: ulp_def)
    have "x / ulp y \<le> y / ulp y"
      using assms(2) ulp_pos [of y] by (simp add: divide_right_mono)
    then have "round_half_even (x / ulp y) \<le> round_half_even (y / ulp y)"
      by (rule round_half_even_mono)
    then have "(of_int (round_half_even (x / ulp y)) :: rat) \<le> of_int (round_half_even (y / ulp y))"
      by (simp only: of_int_le_iff)
    then have "of_int (round_half_even (x / ulp y)) * ulp y \<le> of_int (round_half_even (y / ulp y)) * ulp y"
      using ulp_pos [of y] by (simp add: mult_right_mono)
    then show ?thesis
      using x y u by (simp add: round_unbounded_def)
  next
    case False
    with le have lt: "?Ex + 1 \<le> ?Ey"
      by simp
    then have normal: "- 1022 \<le> ilog2 y" and Ey: "?Ey = ilog2 y"
      by (simp_all add: max_def split: if_splits)
    have "round_unbounded x \<le> 2 powi (?Ex + 1)"
      using x by (rule round_unbounded_upper)
    also have "\<dots> \<le> 2 powi ilog2 y"
      using lt unfolding Ey by (intro power_int_increasing) simp_all
    also have "\<dots> \<le> round_unbounded y"
      using y normal by (rule round_unbounded_lower)
    finally show ?thesis .
  qed
qed

lemma to_double_nonneg:
  assumes "0 \<le> x"
  shows "to_double x = (if 2 powi 1024 \<le> round_unbounded x then PosInf else Finite (round_unbounded x))"
proof -
  let ?v = "round_unbounded x"
  have v: "0 \<le> ?v"
    using assms by (rule round_unbounded_nonneg)
  show ?thesis
  proof (cases "?v = 0")
    case True
    then show ?thesis by (simp add: to_double_def)
  next
    case False
    with v have pos: "0 < ?v"
      by simp
    have "1024 \<le> ilog2 ?v \<longleftrightarrow> 2 powi 1024 \<le> ?v"
    proof
      assume "1024 \<le> ilog2 ?v"
      then have "(2::rat) powi 1024 \<le> 2 powi ilog2 ?v"
        by (intro power_int_increasing) simp_all
      then show "2 powi 1024 \<le> ?v"
        using ilog2_bounds [OF pos] by linarith
    next
      assume "2 powi 1024 \<le> ?v"
      then have "(2::rat) powi 1024 < 2 powi (ilog2 ?v + 1)"
        using ilog2_bounds [OF pos] by linarith
      then have "1024 < ilog2 ?v + 1"
        by (metis less_irrefl not_less one_le_numeral power_int_increasing leD)
      then show "1024 \<le> ilog2 ?v"
        by simp
    qed
    then show ?thesis
      using pos False by (simp add: to_double_def Let_def)
  qed
qed

lemma to_double_mono:
  assumes "0 \<le> x" "x \<le> y" "to_double y = Finite b"
  shows "\<exists>a. to_double x = Finite a \<and> 0 \<le> a \<and> a \<le> b"
proof -
  have y: "0 \<le> y"
    using assms by simp
  have b: "b = round_unbounded y" "\<not> 2 powi 1024 \<le> round_unbounded y"
    using assms(3) unfolding to_double_nonneg [OF y] by (simp_all split: if_splits)
  have le: "round_unbounded x \<le> round_unbounded y"
    using assms(1,2) by (rule round_unbounded_mono)
  then have "\<not> 2 powi 1024 \<le> round_unbounded x"
    using b(2) by linarith
  then have "to_double x = Finite (round_unbounded x)"
    unfolding to_double_nonneg [OF assms(1)] by simp
  then show ?thesis
    using le b(1) round_unbounded_nonneg [OF assms(1)] by simp
qed

lemma to_double_of_int:
  assumes "0 \<le> k" "k < 2 ^ 53"
  shows "to_double (of_int k) = Finite (of_int k)"
proof (cases "k = 0")
  case True
  then show ?thesis by (simp add: to_double_def round_unbounded_def)
next
  case False
  with assms have k: "0 < k"
    by simp
  let ?x = "of_int k :: rat"
  have x: "0 < ?x"
    using k by simp
  note b = ilog2_bounds [OF x]
  have "(2::rat) powi 0 \<le> ?x"
    using k by simp
  then have "(2::rat) powi 0 < 2 powi (ilog2 ?x + 1)"
    using b by linarith
  then have "0 < ilog2 ?x + 1"
    by (metis less_irrefl not_less one_le_numeral power_int_increasing leD)
  then have lo: "0 \<le> ilog2 ?x"
    by simp
  have "?x < of_int (2 ^ 53)"
    using assms(2) by (simp only: of_int_less_iff)
  then have "?x < 2 powi 53"
    by simp
  then have "(2::rat) powi ilog2 ?x < 2 powi 53"
    using b by linarith
  then have hi: "ilog2 ?x < 53"
    by (metis less_irrefl not_less one_le_numeral power_int_increasing leD)
  let ?n = "nat (52 - ilog2 ?x)"
  have u: "ulp ?x = 1 / 2 ^ ?n"
  proof -
    have "ulp ?x = 2 powi (- (52 - ilog2 ?x))"
      using lo x by (simp add: ulp_def max_def)
    also have "\<dots> = 1 / 2 powi (52 - ilog2 ?x)"
      by (rule power_int_minus_divide)
    also have "2 powi (52 - ilog2 ?x) = (2::rat) ^ ?n"
      using hi by (simp add: power_int_nonneg_exp)
    finally show ?thesis .
  qed
  have "?x / ulp ?x = of_int (k * 2 ^ ?n)"
    unfolding u by simp
  then have "round_half_even (?x / ulp ?x) = k * 2 ^ ?n"
    by (simp only: round_half_even_of_int)
  then have v: "round_unbounded ?x = ?x"
    using k unfolding round_unbounded_def u by simp
  have "?x < 2 powi 1024"
  proof -
    have "(2::rat) powi 53 \<le> 2 powi 1024"
      by (intro power_int_increasing) simp_all
    with \<open>?x < 2 powi 53\<close> show ?thesis by linarith
  qed
  then show ?thesis
    using x unfolding to_double_nonneg [OF less_imp_le [OF x]] v by simp
qed

section \<open>Facts about the lookup and the reordering\<close>

lemma insightsMap_Nil: "insightsMap [] = Map.empty"
  by (simp add: insightsMap_def)

lemma insightsMap_snoc:
  "insightsMap (ks @ [k]) =
     (case k of Entry insight \<Rightarrow> (insightsMap ks)(icon insight \<mapsto> insight) | _ \<Rightarrow> insightsMap ks)"
  by (cases k) (simp_all add: insightsMap_def)

lemma insightsMap_None: "insightsMap ks i = None \<longleftrightarrow> Some i \<notin> icon_of ` set ks"
proof (induction ks rule: rev_induct)
  case Nil
  then show ?case by (simp add: insightsMap_Nil)
next
  case (snoc k ks)
  then show ?case
    by (cases k) (auto simp: insightsMap_snoc)
qed

lemma insightsMap_Some: "insightsMap ks i = Some k \<Longrightarrow> Entry k \<in> set ks \<and> icon k = i"
proof (induction ks rule: rev_induct)
  case Nil
  then show ?case by (simp add: insightsMap_Nil)
next
  case (snoc x ks)
  then show ?case
    by (cases x) (auto simp: insightsMap_snoc split: if_splits)
qed

lemma insightsMap_last:
  "\<forall>k\<in>set post. icon_of k \<noteq> Some (icon e) \<Longrightarrow>
     insightsMap (pre @ Entry e # post) (icon e) = Some e"
proof (induction post rule: rev_induct)
  case Nil
  then show ?case
    using insightsMap_snoc [of pre "Entry e"] by simp
next
  case (snoc x xs)
  have "insightsMap (pre @ Entry e # xs @ [x]) =
      (case x of Entry insight \<Rightarrow> (insightsMap (pre @ Entry e # xs))(icon insight \<mapsto> insight)
       | _ \<Rightarrow> insightsMap (pre @ Entry e # xs))"
    using insightsMap_snoc [of "pre @ Entry e # xs" x] by simp
  with snoc show ?case
    by (cases x) auto
qed

lemma orderedInsights_length:
  "length (orderedInsights ks) < 4 \<longleftrightarrow> (\<exists>i\<in>set orderedIcons. Some i \<notin> icon_of ` set ks)"
  by (simp add: orderedInsights_def orderedIcons_def
      insightsMap_None [symmetric] split: option.splits)

lemma orderedInsights_full:
  assumes "\<not> length (orderedInsights ks) < 4"
  shows "orderedInsights ks =
    map (\<lambda>i. (the (insightsMap ks i))\<lparr>title := insightTitles i\<rparr>) orderedIcons"
  using assms
  by (auto simp: orderedInsights_def orderedIcons_def split: option.splits)

lemma all_icons_length:
  assumes "\<forall>i\<in>set orderedIcons. Some i \<in> icon_of ` set ks"
  shows "4 \<le> length ks"
proof -
  have "Some ` set orderedIcons \<subseteq> icon_of ` set ks"
    using assms by blast
  then have "card (Some ` set orderedIcons) \<le> card (icon_of ` set ks)"
    by (simp add: card_mono)
  also have "\<dots> \<le> card (set ks)"
    by (simp add: card_image_le)
  also have "\<dots> \<le> length ks"
    by (rule card_length)
  finally show ?thesis
    by (simp add: orderedIcons_def card_image)
qed

lemma normalize_Inr_iff:
  "normalize data = Inr result \<longleftrightarrow>
     (\<exists>sd ks. skillDistribution data = Some sd \<and> keyInsights data = Some ks \<and>
        Null \<notin> set ks \<and>
        (\<forall>i\<in>set orderedIcons. Some i \<in> icon_of ` set ks) \<and>
        result = data\<lparr>keyInsights := Some (map Entry (orderedInsights ks)),
                       skillDistribution := Some (normalizeDistribution sd)\<rparr>)"
proof (cases "skillDistribution data")
  case None
  then show ?thesis by (simp add: normalize_def)
next
  case sd: (Some sd)
  show ?thesis
  proof (cases "keyInsights data")
    case None
    with sd show ?thesis by (simp add: normalize_def)
  next
    case (Some ks)
    show ?thesis
    proof (cases "\<forall>i\<in>set orderedIcons. Some i \<in> icon_of ` set ks")
      case True
      then have "\<not> length ks < 4" "\<not> length (orderedInsights ks) < 4"
        using all_icons_length [of ks] orderedInsights_length [of ks] by auto
      with sd Some True show ?thesis
        by (auto simp: normalize_def)
    next
      case False
      then have "length (orderedInsights ks) < 4"
        using orderedInsights_length [of ks] by blast
      with sd Some False show ?thesis
        by (auto simp: normalize_def)
    qed
  qed
qed

lemma generateInsights_Inr_iff:
  "generateInsights (Inr response_text) JSON_parse = Inr result \<longleftrightarrow>
     (\<exists>data. JSON_parse (trim response_text) = Inr data \<and> normalize data = Inr result)"
  by (auto simp: generateInsights_def split: sum.splits)

lemma insightTitles_ordered:
  "map insightTitles orderedIcons =
     [Some ''Skill Requirements'', Some ''Leadership Experience'',
      Some ''Employee Tenure'', Some ''Required Expertise'']"
  by (simp add: insightTitles_def orderedIcons_def)

lemma orderedInsights_icons_titles:
  assumes "\<forall>i\<in>set orderedIcons. Some i \<in> icon_of ` set ks"
  shows "map icon (orderedInsights ks) = orderedIcons \<and>
         map title (orderedInsights ks) = map insightTitles orderedIcons"
proof -
  have full: "orderedInsights ks =
      map (\<lambda>i. (the (insightsMap ks i))\<lparr>title := insightTitles i\<rparr>) orderedIcons"
    using assms orderedInsights_length [of ks] by (intro orderedInsights_full) blast
  have "icon (the (insightsMap ks i)) = i" if "i \<in> set orderedIcons" for i
  proof -
    from that assms obtain k where "insightsMap ks i = Some k"
      using insightsMap_None [of ks i] by fastforce
    then show ?thesis
      using insightsMap_Some by fastforce
  qed
  then have "map (\<lambda>i. icon (the (insightsMap ks i))) orderedIcons = orderedIcons"
    by (intro map_idI) simp
  then show ?thesis
    unfolding full by (simp add: comp_def)
qed

lemma orderedInsights_fixed:
  assumes "map icon_of ks = map Some orderedIcons"
    and "map title_of ks = map insightTitles orderedIcons"
  shows "map Entry (orderedInsights ks) = ks"
proof -
  from assms(1) obtain a b c d where ks: "ks = [a, b, c, d]"
    by (auto simp: orderedIcons_def map_eq_Cons_conv)
  from assms(1) obtain a' b' c' d' where
    entries: "a = Entry a'" "b = Entry b'" "c = Entry c'" "d = Entry d'"
    unfolding ks orderedIcons_def
    by (cases a; cases b; cases c; cases d) simp_all
  from assms show ?thesis
    unfolding ks entries
    by (simp add: orderedInsights_def orderedIcons_def insightsMap_def insightTitles_def)
qed

lemma filter_map_key:
  assumes "distinct xs" "j \<in> set xs" "\<forall>i\<in>set xs. key (g i) = Some i"
  shows "filter (\<lambda>k. key k = Some j) (map g xs) = [g j]"
  using assms
proof (induction xs)
  case Nil
  then show ?case by simp
next
  case (Cons x xs)
  show ?case
  proof (cases "x = j")
    case True
    with Cons.prems have "\<forall>i\<in>set xs. key (g i) \<noteq> Some j"
      by auto
    then have "filter (\<lambda>k. key k = Some j) (map g xs) = []"
      by (simp add: filter_empty_conv)
    with True Cons.prems show ?thesis by simp
  next
    case False
    with Cons show ?thesis by simp
  qed
qed

section \<open>Facts about the repair of the distribution\<close>

lemma to_double_small:
  "to_double 0 = Finite 0" "to_double 1 = Finite 1" "to_double 100 = Finite 100"
  using to_double_of_int [of 0] to_double_of_int [of 1] to_double_of_int [of 100]
  by simp_all

lemma normalizeDistribution_100:
  "js_add (technical sd) (soft sd) = Finite 100 \<Longrightarrow> normalizeDistribution sd = sd"
  by (simp add: normalizeDistribution_def js_eq_def)

lemma normalizeDistribution_zero:
  "js_add (technical sd) (soft sd) = Finite 0 \<Longrightarrow>
     normalizeDistribution sd = sd\<lparr>technical := Finite 50, soft := Finite 50\<rparr>"
  by (simp add: normalizeDistribution_def js_eq_def)

lemma rescale_in_range:
  assumes "0 \<le> a" "0 < T" "a \<le> T"
  shows "\<exists>n. 0 \<le> n \<and> n \<le> 100 \<and>
     Math_round (js_mul (js_div (Finite a) (Finite T)) (Finite 100)) = Finite (of_int n)"
proof -
  have "0 \<le> a / T" "a / T \<le> 1"
    using assms by simp_all
  then obtain q where q: "to_double (a / T) = Finite q" "0 \<le> q" "q \<le> 1"
    using to_double_mono [of "a / T" 1 1] to_double_small(2) by blast
  have "0 \<le> q * 100" "q * 100 \<le> 100"
    using q by simp_all
  then obtain p where p: "to_double (q * 100) = Finite p" "0 \<le> p" "p \<le> 100"
    using to_double_mono [of "q * 100" 100 100] to_double_small(3) by blast
  have "(0::int) \<le> \<lfloor>p + 1 / 2\<rfloor>" "\<lfloor>p + 1 / 2\<rfloor> \<le> (100::int)"
    using p by linarith+
  moreover have "Math_round (js_mul (js_div (Finite a) (Finite T)) (Finite 100)) =
      Finite (of_int \<lfloor>p + 1 / 2\<rfloor>)"
    using assms(2) q(1) p(1) by simp
  ultimately show ?thesis
    by blast
qed

lemma complement_exact:
  assumes "0 \<le> n" "n \<le> 100"
  shows "js_sub (Finite 100) (Finite (of_int n)) = Finite (of_int (100 - n))"
    and "js_add (Finite (of_int n)) (Finite (of_int (100 - n))) = Finite 100"
proof -
  have "to_double (of_int (100 - n)) = Finite (of_int (100 - n))"
    using assms by (intro to_double_of_int) simp_all
  then show "js_sub (Finite 100) (Finite (of_int n)) = Finite (of_int (100 - n))"
    by (simp add: js_sub_def)
  show "js_add (Finite (of_int n)) (Finite (of_int (100 - n))) = Finite 100"
    by (simp add: to_double_small)
qed

lemma round_half_even_minus: "round_half_even (- x) = - round_half_even x"
proof (cases "x = of_int \<lfloor>x\<rfloor>")
  case True
  then obtain k where "x = of_int k"
    by blast
  then have "round_half_even (- x) = round_half_even (of_int (- k))"
    by simp
  then show ?thesis
    using \<open>x = of_int k\<close> by (simp only: round_half_even_of_int)
next
  case False
  then have lt: "of_int \<lfloor>x\<rfloor> < x"
    using of_int_floor_le [of x] by linarith
  have up: "x < of_int \<lfloor>x\<rfloor> + 1"
    by linarith
  have fl: "\<lfloor>- x\<rfloor> = - \<lfloor>x\<rfloor> - 1"
    using lt up by (intro floor_unique) simp_all
  show ?thesis
    using lt up by (auto simp: round_half_even_def Let_def fl)
qed

lemma ulp_minus: "ulp (- x) = ulp x"
  by (simp add: ulp_def)

lemma round_unbounded_minus: "round_unbounded (- x) = - round_unbounded x"
  by (simp add: round_unbounded_def ulp_minus round_half_even_minus)

lemma to_double_minus: "to_double (- x) = negate (to_double x)"
  by (simp add: to_double_def round_unbounded_minus Let_def)

lemma round_unbounded_one: "round_unbounded 1 = 1"
  using to_double_small(2) to_double_nonneg [of 1] by (simp split: if_splits)

lemma to_double_negative:
  assumes "x \<le> - 1"
  shows "\<not> non_negative (to_double x)"
proof -
  have "1 \<le> round_unbounded (- x)"
    using round_unbounded_mono [of 1 "- x"] assms by (simp add: round_unbounded_one)
  moreover have "to_double (- x) =
      (if 2 powi 1024 \<le> round_unbounded (- x) then PosInf else Finite (round_unbounded (- x)))"
    using assms by (intro to_double_nonneg) simp
  moreover have "to_double x = negate (to_double (- x))"
    using to_double_minus [of "- x"] by simp
  ultimately show ?thesis
    by simp
qed

lemma rescaled_invariant:
  "non_negative (Math_round m) \<and> non_negative (js_sub (Finite 100) (Math_round m)) \<and>
     js_add (Math_round m) (js_sub (Finite 100) (Math_round m)) = Finite 100 \<longleftrightarrow>
   (\<exists>k. 0 \<le> k \<and> k \<le> 100 \<and> Math_round m = Finite (of_int k))"
proof (cases m)
  case (Finite x)
  let ?k = "\<lfloor>x + 1 / 2\<rfloor>"
  have n: "Math_round m = Finite (of_int ?k)"
    by (simp add: Finite)
  show ?thesis
  proof
    assume inv: "non_negative (Math_round m) \<and> non_negative (js_sub (Finite 100) (Math_round m)) \<and>
      js_add (Math_round m) (js_sub (Finite 100) (Math_round m)) = Finite 100"
    then have lo: "0 \<le> ?k"
      unfolding n by simp
    have "?k \<le> 100"
    proof (rule ccontr)
      assume "\<not> ?k \<le> 100"
      then have "100 - ?k \<le> - 1"
        by simp
      then have "(of_int (100 - ?k) :: rat) \<le> of_int (- 1)"
        by (simp only: of_int_le_iff)
      then have "\<not> non_negative (to_double (of_int (100 - ?k)))"
        by (intro to_double_negative) simp
      then show False
        using inv unfolding n by (simp add: js_sub_def)
    qed
    with lo n show "\<exists>k. 0 \<le> k \<and> k \<le> 100 \<and> Math_round m = Finite (of_int k)"
      by blast
  next
    assume "\<exists>k. 0 \<le> k \<and> k \<le> 100 \<and> Math_round m = Finite (of_int k)"
    then obtain k where k: "0 \<le> k" "k \<le> 100" "Math_round m = Finite (of_int k)"
      by blast
    show "non_negative (Math_round m) \<and> non_negative (js_sub (Finite 100) (Math_round m)) \<and>
      js_add (Math_round m) (js_sub (Finite 100) (Math_round m)) = Finite 100"
      using k complement_exact [OF k(1,2)] by simp
  qed
next
  case PosInf
  then show ?thesis by (simp add: js_sub_def)
next
  case NegInf
  then show ?thesis by simp
next
  case NaN
  then show ?thesis by simp
qed

lemma normalizeDistribution_invariant_iff:
  "non_negative (technical (normalizeDistribution sd)) \<and>
   non_negative (soft (normalizeDistribution sd)) \<and>
   js_add (technical (normalizeDistribution sd)) (soft (normalizeDistribution sd)) = Finite 100 \<longleftrightarrow>
     js_add (technical sd) (soft sd) = Finite 0 \<or>
     js_add (technical sd) (soft sd) = Finite 100 \<and>
       non_negative (technical sd) \<and> non_negative (soft sd) \<or>
     js_gt (js_add (technical sd) (soft sd)) (Finite 0) \<and>
       js_add (technical sd) (soft sd) \<noteq> Finite 100 \<and>
       (\<exists>k. 0 \<le> k \<and> k \<le> 100 \<and>
          Math_round (js_mul (js_div (technical sd) (js_add (technical sd) (soft sd))) (Finite 100))
            = Finite (of_int k))"
proof -
  let ?total = "js_add (technical sd) (soft sd)"
  let ?m = "js_mul (js_div (technical sd) ?total) (Finite 100)"
  consider (zero) "?total = Finite 0"
    | (rescale) "js_gt ?total (Finite 0)" "?total \<noteq> Finite 100"
    | (keep) "?total \<noteq> Finite 0" "\<not> (js_gt ?total (Finite 0) \<and> ?total \<noteq> Finite 100)"
    by blast
  then show ?thesis
  proof cases
    case zero
    then show ?thesis
      using complement_exact [of 50] by (simp add: normalizeDistribution_zero js_sub_def)
  next
    case rescale
    then have nz: "?total \<noteq> Finite 0"
      by auto
    have "technical (normalizeDistribution sd) = Math_round ?m"
      "soft (normalizeDistribution sd) = js_sub (Finite 100) (Math_round ?m)"
      using rescale by (simp_all add: normalizeDistribution_def Let_def js_eq_def)
    then show ?thesis
      using rescale nz rescaled_invariant [of ?m] by simp
  next
    case keep
    then have "normalizeDistribution sd = sd"
      by (auto simp: normalizeDistribution_def Let_def js_eq_def)
    then show ?thesis
      using keep by auto
  qed
qed

section \<open>The skill distribution\<close>

text \<open>
  Claim C2, amended. Whatever the raw distribution of a response that the client accepts:
  when the total \<open>technical + soft\<close>, as the program computes it, is positive and not 100,
  the new \<open>technical\<close> is \<open>Math.round\<close> of \<open>(technical / total) * 100\<close> evaluated in double
  arithmetic, where the sum, the quotient and the product are each rounded to the nearest
  double, and the new \<open>soft\<close> is 100 minus the new \<open>technical\<close>; when the total is zero,
  both become 50. The raw pair (70, 20) becomes (78, 22) and the raw pair (0, 0) becomes
  (50, 50).
\<close>

theorem generateInsights_rescale:
  assumes "JSON_parse (trim response_text) = Inr data"
    and "generateInsights (Inr response_text) JSON_parse = Inr result"
    and "skillDistribution data = Some sd"
  shows "\<exists>sd'. skillDistribution result = Some sd' \<and>
      (js_gt (js_add (technical sd) (soft sd)) (Finite 0) \<and>
       \<not> js_eq (js_add (technical sd) (soft sd)) (Finite 100) \<longrightarrow>
         technical sd' =
           Math_round (js_mul (js_div (technical sd) (js_add (technical sd) (soft sd))) (Finite 100)) \<and>
         soft sd' = js_sub (Finite 100) (technical sd')) \<and>
      (js_eq (js_add (technical sd) (soft sd)) (Finite 0) \<longrightarrow>
         technical sd' = Finite 50 \<and> soft sd' = Finite 50) \<and>
      (technical sd = Finite 70 \<and> soft sd = Finite 20 \<longrightarrow>
         technical sd' = Finite 78 \<and> soft sd' = Finite 22) \<and>
      (technical sd = Finite 0 \<and> soft sd = Finite 0 \<longrightarrow>
         technical sd' = Finite 50 \<and> soft sd' = Finite 50)"
proof -
  from assms(1,2) have "normalize data = Inr result"
    by (simp add: generateInsights_Inr_iff)
  with assms(3) have carried: "skillDistribution result = Some (normalizeDistribution sd)"
    by (auto simp only: normalize_Inr_iff) simp
  let ?total = "js_add (technical sd) (soft sd)"
  let ?sd' = "normalizeDistribution sd"
  have rescale: "js_gt ?total (Finite 0) \<and> \<not> js_eq ?total (Finite 100) \<longrightarrow>
      technical ?sd' = Math_round (js_mul (js_div (technical sd) ?total) (Finite 100)) \<and>
      soft ?sd' = js_sub (Finite 100) (technical ?sd')"
    by (simp add: normalizeDistribution_def Let_def)
  have zero: "js_eq ?total (Finite 0) \<longrightarrow> technical ?sd' = Finite 50 \<and> soft ?sd' = Finite 50"
    by (simp add: normalizeDistribution_def js_eq_def)
  have seventy: "normalizeDistribution \<lparr>technical = Finite 70, soft = Finite 20\<rparr> =
      \<lparr>technical = Finite 78, soft = Finite 22\<rparr>"
    by code_simp
  have ex1: "technical sd = Finite 70 \<and> soft sd = Finite 20 \<longrightarrow>
      technical ?sd' = Finite 78 \<and> soft ?sd' = Finite 22"
  proof
    assume "technical sd = Finite 70 \<and> soft sd = Finite 20"
    then have "sd = \<lparr>technical = Finite 70, soft = Finite 20\<rparr>"
      by (cases sd) simp
    then show "technical ?sd' = Finite 78 \<and> soft ?sd' = Finite 22"
      by (simp only: seventy) simp
  qed
  have ex2: "technical sd = Finite 0 \<and> soft sd = Finite 0 \<longrightarrow>
      technical ?sd' = Finite 50 \<and> soft ?sd' = Finite 50"
    using zero by (auto simp: js_eq_def to_double_small)
  show ?thesis
    using carried rescale zero ex1 ex2 by blast
qed

theorem generateInsights_rescale_witness:
  "\<exists>result.
     generateInsights (Inr ''{...}'')
       (\<lambda>s. Inr \<lparr>skillDistribution = Some \<lparr>technical = Finite 70, soft = Finite 20\<rparr>,
                  keyInsights = Some
                    [Entry \<lparr>icon = ''skills'', text = ''* SQL'', title = None\<rparr>,
                     Entry \<lparr>icon = ''leadership'', text = ''* initiative'', title = None\<rparr>,
                     Entry \<lparr>icon = ''tenure'', text = ''* two years'', title = None\<rparr>,
                     Entry \<lparr>icon = ''expertise'', text = ''* statistics'', title = None\<rparr>]\<rparr>)
       = Inr result \<and>
     skillDistribution result = Some \<lparr>technical = Finite 78, soft = Finite 22\<rparr>"
proof -
  let ?data = "\<lparr>skillDistribution = Some \<lparr>technical = Finite 70, soft = Finite 20\<rparr>,
                  keyInsights = Some
                    [Entry \<lparr>icon = ''skills'', text = ''* SQL'', title = None\<rparr>,
                     Entry \<lparr>icon = ''leadership'', text = ''* initiative'', title = None\<rparr>,
                     Entry \<lparr>icon = ''tenure'', text = ''* two years'', title = None\<rparr>,
                     Entry \<lparr>icon = ''expertise'', text = ''* statistics'', title = None\<rparr>]\<rparr>"
  have parsed: "(\<lambda>s. Inr ?data) (trim ''{...}'') = (Inr ?data :: string + InsightData)"
    by simp
  have "\<forall>i\<in>set orderedIcons. Some i \<in> icon_of ` set (the (keyInsights ?data))"
    by (simp add: orderedIcons_def)
  then obtain result where "normalize ?data = Inr result"
    by (simp only: normalize_Inr_iff InsightData.simps option.sel) fastforce
  then have run: "generateInsights (Inr ''{...}'') (\<lambda>s. Inr ?data) = Inr result"
    by (simp add: generateInsights_def)
  have raw: "skillDistribution ?data = Some \<lparr>technical = Finite 70, soft = Finite 20\<rparr>"
    by simp
  obtain sd' where "skillDistribution result = Some sd'"
    "technical sd' = Finite 78" "soft sd' = Finite 22"
    using generateInsights_rescale [OF parsed run raw] by auto
  then have "skillDistribution result = Some \<lparr>technical = Finite 78, soft = Finite 22\<rparr>"
    by (cases sd') simp
  with run show ?thesis
    by blast
qed

text \<open>
  The rounding of the quotient and of the product can move the value across a tie, so the
  new \<open>technical\<close> is not always the exact percentage rounded: for the raw pair (23, 17)
  the exact percentage is 57.5, which rounds to 58, but the double product is just below
  57.5 and the client returns (57, 43).
\<close>

theorem normalize_float_counterexample:
  "normalize \<lparr>skillDistribution = Some \<lparr>technical = Finite 23, soft = Finite 17\<rparr>,
              keyInsights = Some
                [Entry \<lparr>icon = ''skills'', text = ''* SQL'', title = None\<rparr>,
                 Entry \<lparr>icon = ''leadership'', text = ''* initiative'', title = None\<rparr>,
                 Entry \<lparr>icon = ''tenure'', text = ''* two years'', title = None\<rparr>,
                 Entry \<lparr>icon = ''expertise'', text = ''* statistics'', title = None\<rparr>]\<rparr>
   = Inr \<lparr>skillDistribution = Some \<lparr>technical = Finite 57, soft = Finite 43\<rparr>,
          keyInsights = Some
            [Entry \<lparr>icon = ''skills'', text = ''* SQL'', title = Some ''Skill Requirements''\<rparr>,
             Entry \<lparr>icon = ''leadership'', text = ''* initiative'',
                    title = Some ''Leadership Experience''\<rparr>,
             Entry \<lparr>icon = ''tenure'', text = ''* two years'', title = Some ''Employee Tenure''\<rparr>,
             Entry \<lparr>icon = ''expertise'', text = ''* statistics'',
                    title = Some ''Required Expertise''\<rparr>]\<rparr> \<and>
   \<lfloor>(23 :: rat) / (23 + 17) * 100 + 1 / 2\<rfloor> = 58"
proof -
  have d: "normalizeDistribution \<lparr>technical = Finite 23, soft = Finite 17\<rparr> =
      \<lparr>technical = Finite 57, soft = Finite 43\<rparr>"
    by code_simp
  have f: "\<lfloor>(23 :: rat) / (23 + 17) * 100 + 1 / 2\<rfloor> = 58"
    by simp
  show ?thesis
    unfolding normalize_def
    by (simp add: d f orderedInsights_def orderedIcons_def insightsMap_def insightTitles_def)
qed

text \<open>
  Claim C3, amended. For the raw \<open>technical\<close> and \<open>soft\<close> of an accepted response, the
  normalized values are non-negative with a sum of 100, the sum being the one the
  program's double addition computes, exactly in three cases: the raw sum is zero; the raw
  sum is 100 and both raw values are non-negative; the raw sum is positive and not 100 and
  the rescaled \<open>technical\<close> is an integer from 0 to 100. In particular the invariant holds
  whenever the raw values are doubles that are both finite and non-negative, or that sum to
  zero; and whenever, in addition, the raw sum is not already 100, the normalized values
  are two integers from 0 to 100 that sum to exactly 100.
\<close>

theorem generateInsights_invariant:
  assumes "JSON_parse (trim response_text) = Inr data"
    and "generateInsights (Inr response_text) JSON_parse = Inr result"
    and "skillDistribution data = Some sd"
  shows "\<exists>sd'. skillDistribution result = Some sd' \<and>
      (non_negative (technical sd') \<and> non_negative (soft sd') \<and>
       js_add (technical sd') (soft sd') = Finite 100 \<longleftrightarrow>
         js_add (technical sd) (soft sd) = Finite 0 \<or>
         js_add (technical sd) (soft sd) = Finite 100 \<and>
           non_negative (technical sd) \<and> non_negative (soft sd) \<or>
         js_gt (js_add (technical sd) (soft sd)) (Finite 0) \<and>
           js_add (technical sd) (soft sd) \<noteq> Finite 100 \<and>
           (\<exists>k. 0 \<le> k \<and> k \<le> 100 \<and>
              Math_round
                (js_mul (js_div (technical sd) (js_add (technical sd) (soft sd))) (Finite 100))
                = Finite (of_int k))) \<and>
      (is_double (technical sd) \<and> is_double (soft sd) \<and>
       (is_finite (technical sd) \<and> is_finite (soft sd) \<and>
        non_negative (technical sd) \<and> non_negative (soft sd) \<or>
        js_add (technical sd) (soft sd) = Finite 0) \<longrightarrow>
         non_negative (technical sd') \<and> non_negative (soft sd') \<and>
         js_add (technical sd') (soft sd') = Finite 100 \<and>
         (js_add (technical sd) (soft sd) \<noteq> Finite 100 \<longrightarrow>
            (\<exists>n. 0 \<le> n \<and> n \<le> 100 \<and>
               technical sd' = Finite (of_int n) \<and> soft sd' = Finite (of_int (100 - n)))))"
proof -
  from assms(1,2) have "normalize data = Inr result"
    by (simp add: generateInsights_Inr_iff)
  with assms(3) have carried: "skillDistribution result = Some (normalizeDistribution sd)"
    by (auto simp only: normalize_Inr_iff) simp
  let ?total = "js_add (technical sd) (soft sd)"
  let ?sd' = "normalizeDistribution sd"
  let ?P = "\<lambda>sd'. non_negative (technical sd') \<and> non_negative (soft sd') \<and>
      js_add (technical sd') (soft sd') = Finite 100 \<and>
      (?total \<noteq> Finite 100 \<longrightarrow>
         (\<exists>n. 0 \<le> n \<and> n \<le> 100 \<and>
            technical sd' = Finite (of_int n) \<and> soft sd' = Finite (of_int (100 - n))))"
  have integers: "?P sd'"
    if "0 \<le> n" "n \<le> 100" "technical sd' = Finite (of_int n)"
      "soft sd' = js_sub (Finite 100) (technical sd')" for sd' :: SkillDistribution and n :: int
    using that complement_exact [of n] by auto
  have fifty: "?P (sd\<lparr>technical := Finite 50, soft := Finite 50\<rparr>)"
    using integers [of 50 "sd\<lparr>technical := Finite 50, soft := Finite 50\<rparr>"]
      complement_exact [of 50] by simp
  have range: "?P ?sd'" if doubles: "is_double (technical sd)" "is_double (soft sd)"
    and raws: "is_finite (technical sd) \<and> is_finite (soft sd) \<and>
         non_negative (technical sd) \<and> non_negative (soft sd) \<or>
         js_add (technical sd) (soft sd) = Finite 0"
  proof (cases "?total = Finite 0")
    case True
    then have eq: "?sd' = sd\<lparr>technical := Finite 50, soft := Finite 50\<rparr>"
      by (rule normalizeDistribution_zero)
    show ?thesis
      unfolding eq by (rule fifty)
  next
    case nonzero: False
    with raws obtain a b where raw: "technical sd = Finite a" "soft sd = Finite b"
      and a: "0 \<le> a" and b: "0 \<le> b"
      by (cases "technical sd"; cases "soft sd") auto
    have total: "?total = to_double (a + b)"
      by (simp add: raw)
    show ?thesis
    proof (cases "to_double (a + b)")
      case (Finite T)
      have "to_double a = Finite a"
        using doubles(1) raw by simp
      moreover have "\<exists>a'. to_double a = Finite a' \<and> 0 \<le> a' \<and> a' \<le> T"
        using a b Finite by (intro to_double_mono [of a "a + b" T]) simp_all
      ultimately have T: "0 \<le> T" "a \<le> T"
        using a by auto
      show ?thesis
      proof (cases "T = 100")
        case True
        then have "normalizeDistribution sd = sd"
          using total Finite by (intro normalizeDistribution_100) simp
        then show ?thesis
          using total Finite True raw a b by simp
      next
        case False
        from nonzero total Finite T have pos: "0 < T"
          by (cases "T = 0") simp_all
        obtain n where n: "0 \<le> n" "n \<le> 100"
          "Math_round (js_mul (js_div (Finite a) (Finite T)) (Finite 100)) = Finite (of_int n)"
          using rescale_in_range [OF a pos T(2)] by blast
        have branch: "js_gt ?total (Finite 0) \<and> \<not> js_eq ?total (Finite 100)"
          using total Finite pos False by (simp add: js_eq_def)
        have "technical ?sd' = Finite (of_int n)"
          "soft ?sd' = js_sub (Finite 100) (technical ?sd')"
          using branch n(3) unfolding total Finite raw
          by (simp_all add: normalizeDistribution_def Let_def raw Finite)
        then show ?thesis
          using integers [OF n(1,2)] by blast
      qed
    next
      case PosInf
      have "\<lfloor>(1::rat) / 2\<rfloor> = 0"
        by linarith
      then have "Math_round (js_mul (js_div (Finite a) PosInf) (Finite 100)) = Finite (of_int 0)"
        by (simp add: to_double_small)
      then have "technical ?sd' = Finite (of_int 0)"
        "soft ?sd' = js_sub (Finite 100) (technical ?sd')"
        using total PosInf raw by (simp_all add: normalizeDistribution_def Let_def js_eq_def)
      then show ?thesis
        by (intro integers [of 0 ?sd']) simp_all
    next
      case NegInf
      then show ?thesis
        using to_double_nonneg [of "a + b"] a b by (simp split: if_splits)
    next
      case NaN
      then show ?thesis
        using to_double_nonneg [of "a + b"] a b by (simp split: if_splits)
    qed
  qed
  have first: "non_negative (technical ?sd') \<and> non_negative (soft ?sd') \<and>
       js_add (technical ?sd') (soft ?sd') = Finite 100 \<longleftrightarrow>
         ?total = Finite 0 \<or>
         ?total = Finite 100 \<and> non_negative (technical sd) \<and> non_negative (soft sd) \<or>
         js_gt ?total (Finite 0) \<and> ?total \<noteq> Finite 100 \<and>
           (\<exists>k. 0 \<le> k \<and> k \<le> 100 \<and>
              Math_round (js_mul (js_div (technical sd) ?total) (Finite 100)) = Finite (of_int k))"
    by (rule normalizeDistribution_invariant_iff)
  have second: "is_double (technical sd) \<and> is_double (soft sd) \<and>
       (is_finite (technical sd) \<and> is_finite (soft sd) \<and>
        non_negative (technical sd) \<and> non_negative (soft sd) \<or>
        ?total = Finite 0) \<longrightarrow> ?P ?sd'"
    using range by blast
  from carried first second show ?thesis
    by (intro exI [of _ ?sd'] conjI)
qed

theorem generateInsights_invariant_witness:
  "\<exists>result sd'.
     generateInsights (Inr ''{...}'')
       (\<lambda>s. Inr \<lparr>skillDistribution = Some \<lparr>technical = Finite 1, soft = Finite 2\<rparr>,
                  keyInsights = Some
                    [Entry \<lparr>icon = ''skills'', text = ''* SQL'', title = None\<rparr>,
                     Entry \<lparr>icon = ''leadership'', text = ''* initiative'', title = None\<rparr>,
                     Entry \<lparr>icon = ''tenure'', text = ''* two years'', title = None\<rparr>,
                     Entry \<lparr>icon = ''expertise'', text = ''* statistics'', title = None\<rparr>]\<rparr>)
       = Inr result \<and>
     skillDistribution result = Some sd' \<and>
     non_negative (technical sd') \<and> non_negative (soft sd') \<and>
     js_add (technical sd') (soft sd') = Finite 100"
proof -
  let ?sd = "\<lparr>technical = Finite 1, soft = Finite 2\<rparr>"
  let ?data = "\<lparr>skillDistribution = Some ?sd,
                  keyInsights = Some
                    [Entry \<lparr>icon = ''skills'', text = ''* SQL'', title = None\<rparr>,
                     Entry \<lparr>icon = ''leadership'', text = ''* initiative'', title = None\<rparr>,
                     Entry \<lparr>icon = ''tenure'', text = ''* two years'', title = None\<rparr>,
                     Entry \<lparr>icon = ''expertise'', text = ''* statistics'', title = None\<rparr>]\<rparr>"
  have parsed: "(\<lambda>s. Inr ?data) (trim ''{...}'') = (Inr ?data :: string + InsightData)"
    by simp
  have "\<forall>i\<in>set orderedIcons. Some i \<in> icon_of ` set (the (keyInsights ?data))"
    by (simp add: orderedIcons_def)
  then obtain result where "normalize ?data = Inr result"
    by (simp only: normalize_Inr_iff InsightData.simps option.sel) fastforce
  then have run: "generateInsights (Inr ''{...}'') (\<lambda>s. Inr ?data) = Inr result"
    by (simp add: generateInsights_def)
  have raw: "skillDistribution ?data = Some ?sd"
    by simp
  have doubles: "is_double (technical ?sd)" "is_double (soft ?sd)"
    using to_double_of_int [of 1] to_double_of_int [of 2] by simp_all
  have range: "is_finite (technical ?sd) \<and> is_finite (soft ?sd) \<and>
      non_negative (technical ?sd) \<and> non_negative (soft ?sd) \<or>
      js_add (technical ?sd) (soft ?sd) = Finite 0"
    by simp
  obtain sd' where "skillDistribution result = Some sd'"
    and "is_double (technical ?sd) \<and> is_double (soft ?sd) \<and>
       (is_finite (technical ?sd) \<and> is_finite (soft ?sd) \<and>
        non_negative (technical ?sd) \<and> non_negative (soft ?sd) \<or>
        js_add (technical ?sd) (soft ?sd) = Finite 0) \<longrightarrow>
         non_negative (technical sd') \<and> non_negative (soft sd') \<and>
         js_add (technical sd') (soft sd') = Finite 100 \<and>
         (js_add (technical ?sd) (soft ?sd) \<noteq> Finite 100 \<longrightarrow>
            (\<exists>n. 0 \<le> n \<and> n \<le> 100 \<and>
               technical sd' = Finite (of_int n) \<and> soft sd' = Finite (of_int (100 - n))))"
    using generateInsights_invariant [OF parsed run raw] by blast
  then show ?thesis
    using doubles range run by blast
qed

text \<open>
  Nothing in the normalizer rejects a number, so the invariant does not hold for every
  accepted response. A negative \<open>technical\<close> next to a larger \<open>soft\<close> is rescaled to a
  negative percentage: the raw pair (-10, 20) becomes (-100, 200). An infinite
  \<open>technical\<close>, which a literal such as \<open>1e400\<close> parses to, gives \<open>NaN\<close> for both values.
  And a raw pair whose double sum is already 100 is returned as it is: the double nearest
  to \<open>1e-17\<close> next to 100 stays, although the two numbers do not add up to 100.
\<close>

theorem normalize_range_counterexample:
  "normalize \<lparr>skillDistribution = Some \<lparr>technical = Finite (- 10), soft = Finite 20\<rparr>,
              keyInsights = Some
                [Entry \<lparr>icon = ''skills'', text = ''* SQL'', title = None\<rparr>,
                 Entry \<lparr>icon = ''leadership'', text = ''* initiative'', title = None\<rparr>,
                 Entry \<lparr>icon = ''tenure'', text = ''* two years'', title = None\<rparr>,
                 Entry \<lparr>icon = ''expertise'', text = ''* statistics'', title = None\<rparr>]\<rparr>
   = Inr \<lparr>skillDistribution = Some \<lparr>technical = Finite (- 100), soft = Finite 200\<rparr>,
          keyInsights = Some
            [Entry \<lparr>icon = ''skills'', text = ''* SQL'', title = Some ''Skill Requirements''\<rparr>,
             Entry \<lparr>icon = ''leadership'', text = ''* initiative'',
                    title = Some ''Leadership Experience''\<rparr>,
             Entry \<lparr>icon = ''tenure'', text = ''* two years'', title = Some ''Employee Tenure''\<rparr>,
             Entry \<lparr>icon = ''expertise'', text = ''* statistics'',
                    title = Some ''Required Expertise''\<rparr>]\<rparr> \<and>
   \<not> non_negative (Finite (- 100)) \<and>
   normalize \<lparr>skillDistribution = Some \<lparr>technical = PosInf, soft = Finite 1\<rparr>,
              keyInsights = Some
                [Entry \<lparr>icon = ''skills'', text = ''* SQL'', title = None\<rparr>,
                 Entry \<lparr>icon = ''leadership'', text = ''* initiative'', title = None\<rparr>,
                 Entry \<lparr>icon = ''tenure'', text = ''* two years'', title = None\<rparr>,
                 Entry \<lparr>icon = ''expertise'', text = ''* statistics'', title = None\<rparr>]\<rparr>
   = Inr \<lparr>skillDistribution = Some \<lparr>technical = NaN, soft = NaN\<rparr>,
          keyInsights = Some
            [Entry \<lparr>icon = ''skills'', text = ''* SQL'', title = Some ''Skill Requirements''\<rparr>,
             Entry \<lparr>icon = ''leadership'', text = ''* initiative'',
                    title = Some ''Leadership Experience''\<rparr>,
             Entry \<lparr>icon = ''tenure'', text = ''* two years'', title = Some ''Employee Tenure''\<rparr>,
             Entry \<lparr>icon = ''expertise'', text = ''* statistics'',
                    title = Some ''Required Expertise''\<rparr>]\<rparr> \<and>
   \<not> non_negative NaN \<and>
   normalize \<lparr>skillDistribution = Some \<lparr>technical = Finite (6490371073168535 / 649037107316853453566312041152512), soft = Finite 100\<rparr>,
              keyInsights = Some
                [Entry \<lparr>icon = ''skills'', text = ''* SQL'', title = None\<rparr>,
                 Entry \<lparr>icon = ''leadership'', text = ''* initiative'', title = None\<rparr>,
                 Entry \<lparr>icon = ''tenure'', text = ''* two years'', title = None\<rparr>,
                 Entry \<lparr>icon = ''expertise'', text = ''* statistics'', title = None\<rparr>]\<rparr>
   = Inr \<lparr>skillDistribution = Some \<lparr>technical = Finite (6490371073168535 / 649037107316853453566312041152512), soft = Finite 100\<rparr>,
          keyInsights = Some
            [Entry \<lparr>icon = ''skills'', text = ''* SQL'', title = Some ''Skill Requirements''\<rparr>,
             Entry \<lparr>icon = ''leadership'', text = ''* initiative'',
                    title = Some ''Leadership Experience''\<rparr>,
             Entry \<lparr>icon = ''tenure'', text = ''* two years'', title = Some ''Employee Tenure''\<rparr>,
             Entry \<lparr>icon = ''expertise'', text = ''* statistics'',
                    title = Some ''Required Expertise''\<rparr>]\<rparr> \<and>
   is_double (Finite (6490371073168535 / 649037107316853453566312041152512)) \<and>
   (6490371073168535 / 649037107316853453566312041152512) + 100 \<noteq> (100 :: rat)"
proof -
  have a: "normalizeDistribution \<lparr>technical = Finite (- 10), soft = Finite 20\<rparr> =
     \<lparr>technical = Finite (- 100), soft = Finite 200\<rparr>"
    by code_simp
  have b: "normalizeDistribution \<lparr>technical = PosInf, soft = Finite 1\<rparr> =
     \<lparr>technical = NaN, soft = NaN\<rparr>"
    by (simp add: normalizeDistribution_def js_eq_def js_sub_def)
  have c: "normalizeDistribution
      \<lparr>technical = Finite (6490371073168535 / 649037107316853453566312041152512), soft = Finite 100\<rparr> =
      \<lparr>technical = Finite (6490371073168535 / 649037107316853453566312041152512), soft = Finite 100\<rparr>"
    by code_simp
  have d: "is_double (Finite (6490371073168535 / 649037107316853453566312041152512))"
    by code_simp
  have e: "(6490371073168535 / 649037107316853453566312041152512) + 100 \<noteq> (100 :: rat)"
    by simp
  have n: "\<not> non_negative (Finite (- 100))" "\<not> non_negative NaN"
    by simp_all
  have run: "normalize \<lparr>skillDistribution = Some raw,
              keyInsights = Some
                [Entry \<lparr>icon = ''skills'', text = ''* SQL'', title = None\<rparr>,
                 Entry \<lparr>icon = ''leadership'', text = ''* initiative'', title = None\<rparr>,
                 Entry \<lparr>icon = ''tenure'', text = ''* two years'', title = None\<rparr>,
                 Entry \<lparr>icon = ''expertise'', text = ''* statistics'', title = None\<rparr>]\<rparr>
      = Inr \<lparr>skillDistribution = Some repaired,
          keyInsights = Some
            [Entry \<lparr>icon = ''skills'', text = ''* SQL'', title = Some ''Skill Requirements''\<rparr>,
             Entry \<lparr>icon = ''leadership'', text = ''* initiative'',
                    title = Some ''Leadership Experience''\<rparr>,
             Entry \<lparr>icon = ''tenure'', text = ''* two years'', title = Some ''Employee Tenure''\<rparr>,
             Entry \<lparr>icon = ''expertise'', text = ''* statistics'',
                    title = Some ''Required Expertise''\<rparr>]\<rparr>"
    if "normalizeDistribution raw = repaired" for raw repaired
    unfolding normalize_def using that
    by (simp add: orderedInsights_def orderedIcons_def insightsMap_def insightTitles_def)
  from run [OF a] n(1) run [OF b] n(2) run [OF c] d e show ?thesis
    by (intro conjI)
qed

section \<open>The bullet split\<close>

text \<open>
  Claim C4. For every text, the bullets are the segments of the text between its \<open>*\<close>
  characters, each trimmed of white space at both ends, without the empty ones, in the
  order of the text. The segments are what \<open>split\<close> says: joined by \<open>*\<close> they give the
  text back, and none contains a \<open>*\<close>. Trimming takes white space, and only white space,
  from the two ends: a bullet neither starts nor ends with white space. The text
  \<open>* Python\n* SQL * Excel\<close> gives the bullets \<open>Python\<close>, \<open>SQL\<close>, \<open>Excel\<close>.
\<close>

theorem points_split_trim_filter:
  "points txt = filter (\<lambda>p. p \<noteq> []) (map trim (split CHR ''*'' txt)) \<and>
   join CHR ''*'' (split CHR ''*'' txt) = txt \<and>
   (\<forall>seg\<in>set (split CHR ''*'' txt). CHR ''*'' \<notin> set seg) \<and>
   (\<forall>seg. \<exists>pre post. seg = pre @ trim seg @ post \<and>
      (\<forall>c\<in>set pre. is_white_space c) \<and> (\<forall>c\<in>set post. is_white_space c)) \<and>
   (\<forall>p\<in>set (points txt). p \<noteq> [] \<and> \<not> is_white_space (hd p) \<and> \<not> is_white_space (last p)) \<and>
   points (''* Python'' @ [CHR 0x0A] @ ''* SQL * Excel'') = [''Python'', ''SQL'', ''Excel'']"
proof -
  have shape: "points txt = filter (\<lambda>p. p \<noteq> []) (map trim (split CHR ''*'' txt))"
    by (simp add: points_def filter_Boolean_def)
  have joined: "join CHR ''*'' (split CHR ''*'' txt) = txt"
    by (rule join_split)
  have segs: "\<forall>seg\<in>set (split CHR ''*'' txt). CHR ''*'' \<notin> set seg"
    using split_free by blast
  have trims: "\<forall>seg. \<exists>pre post. seg = pre @ trim seg @ post \<and>
      (\<forall>c\<in>set pre. is_white_space c) \<and> (\<forall>c\<in>set post. is_white_space c)"
    using trim_decompose by blast
  have ends: "\<forall>p\<in>set (points txt). p \<noteq> [] \<and> \<not> is_white_space (hd p) \<and> \<not> is_white_space (last p)"
  proof
    fix p
    assume "p \<in> set (points txt)"
    then obtain seg where "p = trim seg" "p \<noteq> []"
      unfolding shape by auto
    then show "p \<noteq> [] \<and> \<not> is_white_space (hd p) \<and> \<not> is_white_space (last p)"
      using trim_ends [of seg] by simp
  qed
  have example: "points (''* Python'' @ [CHR 0x0A] @ ''* SQL * Excel'') = [''Python'', ''SQL'', ''Excel'']"
    by (simp add: points_def trim_def is_white_space_def filter_Boolean_def)
  show ?thesis
    using shape joined segs trims ends example by blast
qed

theorem points_split_trim_filter_witness:
  "'' SQL '' \<in> set (split CHR ''*'' ''* SQL * Excel'') \<and> CHR ''*'' \<notin> set '' SQL '' \<and>
   ''SQL'' \<in> set (points ''* SQL * Excel'') \<and>
   \<not> is_white_space (hd ''SQL'') \<and> \<not> is_white_space (last ''SQL'') \<and>
   points ''* SQL * Excel'' = [''SQL'', ''Excel'']"
proof -
  have p: "points ''* SQL * Excel'' = [''SQL'', ''Excel'']"
    by (simp add: points_def trim_def is_white_space_def filter_Boolean_def)
  have s: "split CHR ''*'' ''* SQL * Excel'' = ['''', '' SQL '', '' Excel'']"
    by simp
  have "\<forall>q\<in>set (points ''* SQL * Excel'').
          q \<noteq> [] \<and> \<not> is_white_space (hd q) \<and> \<not> is_white_space (last q)"
    using points_split_trim_filter [of "''* SQL * Excel''"] by blast
  then have e: "\<not> is_white_space (hd ''SQL'') \<and> \<not> is_white_space (last ''SQL'')"
    unfolding p by simp
  have "\<forall>seg\<in>set (split CHR ''*'' ''* SQL * Excel''). CHR ''*'' \<notin> set seg"
    using points_split_trim_filter [of "''* SQL * Excel''"] by blast
  then have f: "CHR ''*'' \<notin> set '' SQL ''"
    unfolding s by simp
  show ?thesis
    using e f unfolding p s by simp
qed

text \<open>
  Claim C5, amended. A text without \<open>*\<close> that has at least one character other than white
  space gives exactly one bullet, the whole text trimmed, and that bullet is not empty.
\<close>

theorem points_without_star:
  assumes "CHR ''*'' \<notin> set txt" "\<exists>c\<in>set txt. \<not> is_white_space c"
  shows "points txt = [trim txt] \<and> trim txt \<noteq> []"
proof -
  have "split CHR ''*'' txt = [txt]"
    using assms(1) by (rule split_no_sep)
  moreover have "trim txt \<noteq> []"
    using assms(2) by (simp only: trim_Nil_iff) blast
  ultimately show ?thesis
    by (simp add: points_def filter_Boolean_def)
qed

theorem points_without_star_witness:
  "CHR ''*'' \<notin> set '' Python '' \<and> (\<exists>c\<in>set '' Python ''. \<not> is_white_space c) \<and>
   points '' Python '' = [''Python'']"
proof -
  have a: "CHR ''*'' \<notin> set '' Python ''"
    by simp
  have b: "\<exists>c\<in>set '' Python ''. \<not> is_white_space c"
    by (simp add: is_white_space_def)
  have t: "trim '' Python '' = ''Python''"
    by (simp add: trim_def is_white_space_def)
  show ?thesis
    using points_without_star [OF a b] a b t by simp
qed

text \<open>
  A text without \<open>*\<close> made of white space only (or the empty text) trims to the empty
  string, which \<open>filter(Boolean)\<close> drops: the list of bullets is empty.
\<close>

theorem points_blank_counterexample:
  "CHR ''*'' \<notin> set ''  '' \<and> points ''  '' = [] \<and> points ''  '' \<noteq> [trim ''  '']"
  by (simp add: points_def trim_def is_white_space_def filter_Boolean_def)

section \<open>The categories of a normalized response\<close>

text \<open>
  Claim C1, amended. For every raw response that has a skill-distribution object, whose
  array of category entries has no \<open>null\<close> element, and that has, for each of the four
  keys \<open>skills\<close>, \<open>leadership\<close>, \<open>tenure\<close> and \<open>expertise\<close>, at least one category entry,
  the client returns a result whose categories are exactly in the order skills,
  leadership, tenure, expertise, whatever the order of the raw entries, and whose titles
  are the fixed ones, whatever title the service sent.
\<close>

theorem generateInsights_ordered_titled:
  assumes "JSON_parse (trim response_text) = Inr data"
    and "skillDistribution data \<noteq> None"
    and "\<not> has_null data"
    and "\<forall>key\<in>set orderedIcons. has_entry data key"
  shows "\<exists>result ins.
      generateInsights (Inr response_text) JSON_parse = Inr result \<and>
      keyInsights result = Some (map Entry ins) \<and>
      map icon ins = [''skills'', ''leadership'', ''tenure'', ''expertise''] \<and>
      map title ins =
        [Some ''Skill Requirements'', Some ''Leadership Experience'',
         Some ''Employee Tenure'', Some ''Required Expertise'']"
proof -
  from assms(2) obtain sd where sd: "skillDistribution data = Some sd"
    by blast
  from assms(4) obtain ks where ks: "keyInsights data = Some ks"
    by (cases "keyInsights data") (auto simp: has_entry_def orderedIcons_def)
  with assms(4) have present: "\<forall>i\<in>set orderedIcons. Some i \<in> icon_of ` set ks"
    by (simp add: has_entry_def)
  from ks assms(3) have no_null: "Null \<notin> set ks"
    by (simp add: has_null_def)
  let ?result = "data\<lparr>keyInsights := Some (map Entry (orderedInsights ks)),
                         skillDistribution := Some (normalizeDistribution sd)\<rparr>"
  have "normalize data = Inr ?result"
    using sd ks present no_null by (simp only: normalize_Inr_iff) blast
  then have run: "generateInsights (Inr response_text) JSON_parse = Inr ?result"
    using assms(1) by (simp add: generateInsights_def)
  have icons: "map icon (orderedInsights ks) = [''skills'', ''leadership'', ''tenure'', ''expertise'']"
    using orderedInsights_icons_titles [OF present] by (simp add: orderedIcons_def)
  have titles: "map title (orderedInsights ks) =
        [Some ''Skill Requirements'', Some ''Leadership Experience'',
         Some ''Employee Tenure'', Some ''Required Expertise'']"
    using orderedInsights_icons_titles [OF present] by (simp only: insightTitles_ordered)
  show ?thesis
  proof (intro exI conjI)
    show "generateInsights (Inr response_text) JSON_parse = Inr ?result"
      by (rule run)
    show "keyInsights ?result = Some (map Entry (orderedInsights ks))"
      by simp
    show "map icon (orderedInsights ks) = [''skills'', ''leadership'', ''tenure'', ''expertise'']"
      by (rule icons)
    show "map title (orderedInsights ks) =
        [Some ''Skill Requirements'', Some ''Leadership Experience'',
         Some ''Employee Tenure'', Some ''Required Expertise'']"
      by (rule titles)
  qed
qed

theorem generateInsights_ordered_titled_witness:
  "\<exists>result ins.
     generateInsights (Inr '' {...} '')
       (\<lambda>s. Inr \<lparr>skillDistribution = Some \<lparr>technical = Finite 70, soft = Finite 20\<rparr>,
                  keyInsights = Some
                    [Entry \<lparr>icon = ''tenure'', text = ''* two years'', title = None\<rparr>,
                     Other,
                     Entry \<lparr>icon = ''skills'', text = ''* SQL'', title = Some ''Hot skills''\<rparr>,
                     Entry \<lparr>icon = ''expertise'', text = ''* statistics'', title = None\<rparr>,
                     Entry \<lparr>icon = ''leadership'', text = ''* initiative'', title = None\<rparr>]\<rparr>)
       = Inr result \<and>
     keyInsights result = Some (map Entry ins) \<and>
     map icon ins = [''skills'', ''leadership'', ''tenure'', ''expertise''] \<and>
     map title ins =
       [Some ''Skill Requirements'', Some ''Leadership Experience'',
        Some ''Employee Tenure'', Some ''Required Expertise'']"
proof -
  let ?data = "\<lparr>skillDistribution = Some \<lparr>technical = Finite 70, soft = Finite 20\<rparr>,
                  keyInsights = Some
                    [Entry \<lparr>icon = ''tenure'', text = ''* two years'', title = None\<rparr>,
                     Other,
                     Entry \<lparr>icon = ''skills'', text = ''* SQL'', title = Some ''Hot skills''\<rparr>,
                     Entry \<lparr>icon = ''expertise'', text = ''* statistics'', title = None\<rparr>,
                     Entry \<lparr>icon = ''leadership'', text = ''* initiative'', title = None\<rparr>]\<rparr>"
  have parsed: "(\<lambda>s. Inr ?data) (trim '' {...} '') = (Inr ?data :: string + InsightData)"
    by simp
  have distribution: "skillDistribution ?data \<noteq> None"
    by simp
  have no_null: "\<not> has_null ?data"
    by (simp add: has_null_def)
  have present: "\<forall>key\<in>set orderedIcons. has_entry ?data key"
    by (simp add: has_entry_def orderedIcons_def)
  show ?thesis
    using generateInsights_ordered_titled [OF parsed distribution no_null present] .
qed

text \<open>
  The four category entries alone are not enough. The first check of the normalizer
  rejects a response without a skill-distribution object, and reading the \<open>icon\<close> of a
  \<open>null\<close> element throws: in both cases the four entries are there and no result is
  produced.
\<close>

theorem normalize_incomplete_counterexample:
  "list_all
     (has_entry \<lparr>skillDistribution = None,
                 keyInsights = Some
                   [Entry \<lparr>icon = ''skills'', text = ''* SQL'', title = None\<rparr>,
                    Entry \<lparr>icon = ''leadership'', text = ''* initiative'', title = None\<rparr>,
                    Entry \<lparr>icon = ''tenure'', text = ''* two years'', title = None\<rparr>,
                    Entry \<lparr>icon = ''expertise'', text = ''* statistics'', title = None\<rparr>]\<rparr>)
     [''skills'', ''leadership'', ''tenure'', ''expertise''] \<and>
   normalize \<lparr>skillDistribution = None,
              keyInsights = Some
                [Entry \<lparr>icon = ''skills'', text = ''* SQL'', title = None\<rparr>,
                 Entry \<lparr>icon = ''leadership'', text = ''* initiative'', title = None\<rparr>,
                 Entry \<lparr>icon = ''tenure'', text = ''* two years'', title = None\<rparr>,
                 Entry \<lparr>icon = ''expertise'', text = ''* statistics'', title = None\<rparr>]\<rparr>
     = Inl (Error ''Invalid data structure received from API.'') \<and>
   list_all
     (has_entry \<lparr>skillDistribution = Some \<lparr>technical = Finite 60, soft = Finite 40\<rparr>,
                 keyInsights = Some
                   [Null,
                    Entry \<lparr>icon = ''skills'', text = ''* SQL'', title = None\<rparr>,
                    Entry \<lparr>icon = ''leadership'', text = ''* initiative'', title = None\<rparr>,
                    Entry \<lparr>icon = ''tenure'', text = ''* two years'', title = None\<rparr>,
                    Entry \<lparr>icon = ''expertise'', text = ''* statistics'', title = None\<rparr>]\<rparr>)
     [''skills'', ''leadership'', ''tenure'', ''expertise''] \<and>
   normalize \<lparr>skillDistribution = Some \<lparr>technical = Finite 60, soft = Finite 40\<rparr>,
              keyInsights = Some
                [Null,
                 Entry \<lparr>icon = ''skills'', text = ''* SQL'', title = None\<rparr>,
                 Entry \<lparr>icon = ''leadership'', text = ''* initiative'', title = None\<rparr>,
                 Entry \<lparr>icon = ''tenure'', text = ''* two years'', title = None\<rparr>,
                 Entry \<lparr>icon = ''expertise'', text = ''* statistics'', title = None\<rparr>]\<rparr>
     = Inl TypeError \<and>
   generateInsights (Inr ''{...}'')
     (\<lambda>s. Inr \<lparr>skillDistribution = Some \<lparr>technical = Finite 60, soft = Finite 40\<rparr>,
                keyInsights = Some
                  [Null,
                   Entry \<lparr>icon = ''skills'', text = ''* SQL'', title = None\<rparr>,
                   Entry \<lparr>icon = ''leadership'', text = ''* initiative'', title = None\<rparr>,
                   Entry \<lparr>icon = ''tenure'', text = ''* two years'', title = None\<rparr>,
                   Entry \<lparr>icon = ''expertise'', text = ''* statistics'', title = None\<rparr>]\<rparr>)
     = Inl failure_message"
  by (simp add: has_entry_def normalize_def generateInsights_def)

text \<open>
  Claim C6. For every raw response in which at least one of the four required keys has
  no category entry, normalization fails and the client returns an error, not a result.
  A response without a \<open>tenure\<close> entry is one of them.
\<close>

theorem generateInsights_missing_category:
  assumes "JSON_parse (trim response_text) = Inr data"
    and "\<exists>key\<in>set orderedIcons. \<not> has_entry data key"
  shows "(\<exists>thrown. normalize data = Inl thrown) \<and>
         generateInsights (Inr response_text) JSON_parse = Inl failure_message \<and>
         (\<forall>result. generateInsights (Inr response_text) JSON_parse \<noteq> Inr result)"
proof -
  have "normalize data \<noteq> Inr result" for result
  proof
    assume "normalize data = Inr result"
    then obtain ks where "keyInsights data = Some ks"
      "\<forall>i\<in>set orderedIcons. Some i \<in> icon_of ` set ks"
      by (auto simp only: normalize_Inr_iff)
    then have "\<forall>key\<in>set orderedIcons. has_entry data key"
      by (simp add: has_entry_def)
    with assms(2) show False by blast
  qed
  then obtain thrown where m: "normalize data = Inl thrown"
    by (cases "normalize data") auto
  then show ?thesis
    using assms(1) by (simp add: generateInsights_def)
qed

theorem generateInsights_missing_category_witness:
  "\<not> has_entry \<lparr>skillDistribution = Some \<lparr>technical = Finite 60, soft = Finite 40\<rparr>,
                 keyInsights = Some
                   [Entry \<lparr>icon = ''skills'', text = ''* SQL'', title = None\<rparr>,
                    Entry \<lparr>icon = ''leadership'', text = ''* initiative'', title = None\<rparr>,
                    Entry \<lparr>icon = ''expertise'', text = ''* statistics'', title = None\<rparr>,
                    Entry \<lparr>icon = ''skills'', text = ''* Excel'', title = None\<rparr>]\<rparr> ''tenure'' \<and>
   generateInsights (Inr ''{...}'')
     (\<lambda>s. Inr \<lparr>skillDistribution = Some \<lparr>technical = Finite 60, soft = Finite 40\<rparr>,
                keyInsights = Some
                  [Entry \<lparr>icon = ''skills'', text = ''* SQL'', title = None\<rparr>,
                   Entry \<lparr>icon = ''leadership'', text = ''* initiative'', title = None\<rparr>,
                   Entry \<lparr>icon = ''expertise'', text = ''* statistics'', title = None\<rparr>,
                   Entry \<lparr>icon = ''skills'', text = ''* Excel'', title = None\<rparr>]\<rparr>)
     = Inl failure_message"
proof -
  let ?data = "\<lparr>skillDistribution = Some \<lparr>technical = Finite 60, soft = Finite 40\<rparr>,
                keyInsights = Some
                  [Entry \<lparr>icon = ''skills'', text = ''* SQL'', title = None\<rparr>,
                   Entry \<lparr>icon = ''leadership'', text = ''* initiative'', title = None\<rparr>,
                   Entry \<lparr>icon = ''expertise'', text = ''* statistics'', title = None\<rparr>,
                   Entry \<lparr>icon = ''skills'', text = ''* Excel'', title = None\<rparr>]\<rparr>"
  have missing: "\<not> has_entry ?data ''tenure''"
    by (simp add: has_entry_def)
  then have some: "\<exists>key\<in>set orderedIcons. \<not> has_entry ?data key"
    by (simp add: orderedIcons_def)
  have parsed: "(\<lambda>s. Inr ?data) (trim ''{...}'') = (Inr ?data :: string + InsightData)"
    by simp
  show ?thesis
    using generateInsights_missing_category [OF parsed some] missing by blast
qed

text \<open>
  Claim C8. Normalization is idempotent: a result that is already normalized (the four
  categories in the fixed order with the fixed titles, a distribution that sums to 100)
  is returned unchanged by another run of the normalization. So is every result of the
  normalization itself whose distribution sums to 100.
\<close>

theorem normalize_idempotent:
  "(normalized data \<longrightarrow> normalize data = Inr data) \<and>
   (normalize data = Inr result \<and>
    (\<exists>sd. skillDistribution result = Some sd \<and> js_add (technical sd) (soft sd) = Finite 100) \<longrightarrow>
      normalize result = Inr result)"
proof
  show "normalized data \<longrightarrow> normalize data = Inr data"
  proof
    assume n: "normalized data"
    then obtain sd ks where sd: "skillDistribution data = Some sd"
      and ks: "keyInsights data = Some ks"
      by (auto simp: normalized_def split: option.splits)
    from n sd ks have icons: "map icon_of ks = map Some orderedIcons"
      and titles: "map title_of ks = map insightTitles orderedIcons"
      and hundred: "js_add (technical sd) (soft sd) = Finite 100"
      by (simp_all add: normalized_def orderedIcons_def insightTitles_def)
    from icons have "icon_of ` set ks = Some ` set orderedIcons"
      by (metis list.set_map)
    then have present: "\<forall>i\<in>set orderedIcons. Some i \<in> icon_of ` set ks"
      and no_null: "Null \<notin> set ks"
      by force+
    have "data\<lparr>keyInsights := Some (map Entry (orderedInsights ks)),
               skillDistribution := Some (normalizeDistribution sd)\<rparr> = data"
      using sd ks orderedInsights_fixed [OF icons titles] normalizeDistribution_100 [OF hundred]
      by simp
    then show "normalize data = Inr data"
      using sd ks present no_null by (simp only: normalize_Inr_iff) metis
  qed
next
  show "normalize data = Inr result \<and>
    (\<exists>sd. skillDistribution result = Some sd \<and> js_add (technical sd) (soft sd) = Finite 100) \<longrightarrow>
      normalize result = Inr result"
  proof
    assume a: "normalize data = Inr result \<and>
      (\<exists>sd. skillDistribution result = Some sd \<and> js_add (technical sd) (soft sd) = Finite 100)"
    then obtain sd ks where present: "\<forall>i\<in>set orderedIcons. Some i \<in> icon_of ` set ks"
      and result: "result = data\<lparr>keyInsights := Some (map Entry (orderedInsights ks)),
                       skillDistribution := Some (normalizeDistribution sd)\<rparr>"
      by (auto simp only: normalize_Inr_iff)
    let ?ks = "map Entry (orderedInsights ks)"
    have "map icon_of ?ks = map Some (map icon (orderedInsights ks))"
      "map title_of ?ks = map title (orderedInsights ks)"
      by (simp_all add: comp_def)
    then have shape: "map icon_of ?ks = map Some orderedIcons"
      "map title_of ?ks = map insightTitles orderedIcons"
      using orderedInsights_icons_titles [OF present] by simp_all
    from shape(1) have "icon_of ` set ?ks = Some ` set orderedIcons"
      by (metis list.set_map)
    then have present': "\<forall>i\<in>set orderedIcons. Some i \<in> icon_of ` set ?ks"
      by force
    have no_null: "Null \<notin> set ?ks"
      by auto
    have sd': "skillDistribution result = Some (normalizeDistribution sd)"
      and ks': "keyInsights result = Some ?ks"
      by (simp_all add: result)
    from a sd' have "js_add (technical (normalizeDistribution sd)) (soft (normalizeDistribution sd))
        = Finite 100"
      by auto
    then have again: "normalizeDistribution (normalizeDistribution sd) = normalizeDistribution sd"
      by (rule normalizeDistribution_100)
    have "result\<lparr>keyInsights := Some (map Entry (orderedInsights ?ks)),
               skillDistribution := Some (normalizeDistribution (normalizeDistribution sd))\<rparr> = result"
      using orderedInsights_fixed [OF shape] again
      by (simp add: result)
    then show "normalize result = Inr result"
      using sd' ks' present' no_null by (simp only: normalize_Inr_iff) metis
  qed
qed

theorem normalize_idempotent_witness:
  "normalized
     \<lparr>skillDistribution = Some \<lparr>technical = Finite 78, soft = Finite 22\<rparr>,
      keyInsights = Some
        [Entry \<lparr>icon = ''skills'', text = ''* SQL'', title = Some ''Skill Requirements''\<rparr>,
         Entry \<lparr>icon = ''leadership'', text = ''* initiative'', title = Some ''Leadership Experience''\<rparr>,
         Entry \<lparr>icon = ''tenure'', text = ''* two years'', title = Some ''Employee Tenure''\<rparr>,
         Entry \<lparr>icon = ''expertise'', text = ''* statistics'', title = Some ''Required Expertise''\<rparr>]\<rparr> \<and>
   normalize
     \<lparr>skillDistribution = Some \<lparr>technical = Finite 78, soft = Finite 22\<rparr>,
      keyInsights = Some
        [Entry \<lparr>icon = ''skills'', text = ''* SQL'', title = Some ''Skill Requirements''\<rparr>,
         Entry \<lparr>icon = ''leadership'', text = ''* initiative'', title = Some ''Leadership Experience''\<rparr>,
         Entry \<lparr>icon = ''tenure'', text = ''* two years'', title = Some ''Employee Tenure''\<rparr>,
         Entry \<lparr>icon = ''expertise'', text = ''* statistics'', title = Some ''Required Expertise''\<rparr>]\<rparr>
   = Inr
     \<lparr>skillDistribution = Some \<lparr>technical = Finite 78, soft = Finite 22\<rparr>,
      keyInsights = Some
        [Entry \<lparr>icon = ''skills'', text = ''* SQL'', title = Some ''Skill Requirements''\<rparr>,
         Entry \<lparr>icon = ''leadership'', text = ''* initiative'', title = Some ''Leadership Experience''\<rparr>,
         Entry \<lparr>icon = ''tenure'', text = ''* two years'', title = Some ''Employee Tenure''\<rparr>,
         Entry \<lparr>icon = ''expertise'', text = ''* statistics'', title = Some ''Required Expertise''\<rparr>]\<rparr>"
proof -
  let ?data = "\<lparr>skillDistribution = Some \<lparr>technical = Finite 78, soft = Finite 22\<rparr>,
      keyInsights = Some
        [Entry \<lparr>icon = ''skills'', text = ''* SQL'', title = Some ''Skill Requirements''\<rparr>,
         Entry \<lparr>icon = ''leadership'', text = ''* initiative'', title = Some ''Leadership Experience''\<rparr>,
         Entry \<lparr>icon = ''tenure'', text = ''* two years'', title = Some ''Employee Tenure''\<rparr>,
         Entry \<lparr>icon = ''expertise'', text = ''* statistics'', title = Some ''Required Expertise''\<rparr>]\<rparr>"
  have n: "normalized ?data"
    by (simp add: normalized_def to_double_small)
  then show ?thesis
    using normalize_idempotent [of ?data] by blast
qed

text \<open>
  Claim C9. When a raw response has several entries with the same key, the lookup maps
  the key to the last of them: an entry that no later entry shares its key with is the
  value of its key. When the key is one of the four and the normalization succeeds, the
  one category of the result under that key is that last entry, with the fixed title.
\<close>

theorem insightsMap_last_wins:
  assumes "keyInsights data = Some (pre @ Entry e # post)"
    and "\<forall>k\<in>set post. icon_of k \<noteq> Some (icon e)"
  shows "insightsMap (pre @ Entry e # post) (icon e) = Some e \<and>
         (\<forall>result. normalize data = Inr result \<and> icon e \<in> set orderedIcons \<longrightarrow>
            (\<exists>ins. keyInsights result = Some ins \<and>
               filter (\<lambda>k. icon_of k = Some (icon e)) ins =
                 [Entry (e\<lparr>title := insightTitles (icon e)\<rparr>)]))"
proof
  let ?ks = "pre @ Entry e # post"
  show last: "insightsMap ?ks (icon e) = Some e"
    using assms(2) by (rule insightsMap_last)
  show "\<forall>result. normalize data = Inr result \<and> icon e \<in> set orderedIcons \<longrightarrow>
            (\<exists>ins. keyInsights result = Some ins \<and>
               filter (\<lambda>k. icon_of k = Some (icon e)) ins =
                 [Entry (e\<lparr>title := insightTitles (icon e)\<rparr>)])"
  proof (intro allI impI)
    fix result
    assume "normalize data = Inr result \<and> icon e \<in> set orderedIcons"
    then have run: "normalize data = Inr result" and key: "icon e \<in> set orderedIcons"
      by simp_all
    from run obtain sd ks where ks: "keyInsights data = Some ks"
      and all: "\<forall>i\<in>set orderedIcons. Some i \<in> icon_of ` set ks"
      and built: "result = data\<lparr>keyInsights := Some (map Entry (orderedInsights ks)),
                       skillDistribution := Some (normalizeDistribution sd)\<rparr>"
      by (auto simp only: normalize_Inr_iff)
    from ks assms(1) have same: "ks = ?ks"
      by simp
    have present: "\<forall>i\<in>set orderedIcons. Some i \<in> icon_of ` set ?ks"
      using all unfolding same .
    have result: "keyInsights result = Some (map Entry (orderedInsights ?ks))"
      unfolding built same by simp
    have full: "orderedInsights ?ks =
        map (\<lambda>i. (the (insightsMap ?ks i))\<lparr>title := insightTitles i\<rparr>) orderedIcons"
      using present orderedInsights_length [of ?ks] by (intro orderedInsights_full) blast
    have own: "icon (the (insightsMap ?ks i)) = i" if "i \<in> set orderedIcons" for i
    proof -
      from that present obtain k where "insightsMap ?ks i = Some k"
        using insightsMap_None [of ?ks i] by fastforce
      then show ?thesis
        using insightsMap_Some by fastforce
    qed
    have "filter (\<lambda>k. icon_of k = Some (icon e)) (map Entry (orderedInsights ?ks)) =
        [Entry (e\<lparr>title := insightTitles (icon e)\<rparr>)]"
    proof -
      have "distinct orderedIcons"
        by (simp add: orderedIcons_def)
      then have "filter (\<lambda>k. icon_of k = Some (icon e))
          (map (\<lambda>i. Entry ((the (insightsMap ?ks i))\<lparr>title := insightTitles i\<rparr>)) orderedIcons) =
          [Entry ((the (insightsMap ?ks (icon e)))\<lparr>title := insightTitles (icon e)\<rparr>)]"
        using key own by (intro filter_map_key) simp_all
      then show ?thesis
        unfolding full last by (simp add: comp_def)
    qed
    with result show "\<exists>ins. keyInsights result = Some ins \<and>
               filter (\<lambda>k. icon_of k = Some (icon e)) ins =
                 [Entry (e\<lparr>title := insightTitles (icon e)\<rparr>)]"
      by simp
  qed
qed

theorem insightsMap_last_wins_witness:
  "insightsMap
     [Entry \<lparr>icon = ''skills'', text = ''* first'', title = None\<rparr>,
      Entry \<lparr>icon = ''leadership'', text = ''* initiative'', title = None\<rparr>,
      Entry \<lparr>icon = ''skills'', text = ''* second'', title = None\<rparr>,
      Entry \<lparr>icon = ''tenure'', text = ''* two years'', title = None\<rparr>,
      Entry \<lparr>icon = ''expertise'', text = ''* statistics'', title = None\<rparr>] ''skills''
   = Some \<lparr>icon = ''skills'', text = ''* second'', title = None\<rparr> \<and>
   (\<exists>result ins.
      normalize \<lparr>skillDistribution = Some \<lparr>technical = Finite 60, soft = Finite 40\<rparr>,
                 keyInsights = Some
                   [Entry \<lparr>icon = ''skills'', text = ''* first'', title = None\<rparr>,
                    Entry \<lparr>icon = ''leadership'', text = ''* initiative'', title = None\<rparr>,
                    Entry \<lparr>icon = ''skills'', text = ''* second'', title = None\<rparr>,
                    Entry \<lparr>icon = ''tenure'', text = ''* two years'', title = None\<rparr>,
                    Entry \<lparr>icon = ''expertise'', text = ''* statistics'', title = None\<rparr>]\<rparr>
        = Inr result \<and>
      keyInsights result = Some ins \<and>
      filter (\<lambda>k. icon_of k = Some ''skills'') ins =
        [Entry \<lparr>icon = ''skills'', text = ''* second'', title = Some ''Skill Requirements''\<rparr>])"
proof -
  let ?pre = "[Entry \<lparr>icon = ''skills'', text = ''* first'', title = None\<rparr>,
      Entry \<lparr>icon = ''leadership'', text = ''* initiative'', title = None\<rparr>]"
  let ?e = "\<lparr>icon = ''skills'', text = ''* second'', title = None\<rparr>"
  let ?post = "[Entry \<lparr>icon = ''tenure'', text = ''* two years'', title = None\<rparr>,
      Entry \<lparr>icon = ''expertise'', text = ''* statistics'', title = None\<rparr>]"
  let ?data = "\<lparr>skillDistribution = Some \<lparr>technical = Finite 60, soft = Finite 40\<rparr>,
                 keyInsights = Some (?pre @ Entry ?e # ?post)\<rparr>"
  have entries: "keyInsights ?data = Some (?pre @ Entry ?e # ?post)"
    by simp
  have later: "\<forall>k\<in>set ?post. icon_of k \<noteq> Some (icon ?e)"
    by simp
  have key: "icon ?e \<in> set orderedIcons"
    by (simp add: orderedIcons_def)
  have present: "\<forall>i\<in>set orderedIcons. Some i \<in> icon_of ` set (?pre @ Entry ?e # ?post)"
    by (simp add: orderedIcons_def)
  have no_null: "Null \<notin> set (?pre @ Entry ?e # ?post)"
    by simp
  obtain result where run: "normalize ?data = Inr result"
    using present no_null by (simp only: normalize_Inr_iff InsightData.simps) blast
  from insightsMap_last_wins [OF entries later] run key
  obtain ins where "insightsMap (?pre @ Entry ?e # ?post) (icon ?e) = Some ?e"
    "keyInsights result = Some ins"
    "filter (\<lambda>k. icon_of k = Some (icon ?e)) ins = [Entry (?e\<lparr>title := insightTitles (icon ?e)\<rparr>)]"
    by blast
  with run show ?thesis
    by (auto simp: insightTitles_def)
qed

section \<open>The errors of the two clients\<close>



text \<open>
  Claim C7, amended. For every reply of the remote backend whose status is not 2xx and
  whose JSON body is an object with a \<open>detail\<close> member that is a non-empty string, the
  HTTP client fails with an error whose message is that string. The body
  \<open>{"detail": "rate limited"}\<close> gives the message \<open>rate limited\<close>.
\<close>

theorem getJobInsights_detail:
  assumes "\<not> ok response"
    and "json response = Inr (JObj members)"
    and "map_of (rev members) ''detail'' = Some (JStr detail)"
    and "detail \<noteq> []"
  shows "getJobInsights (Inr response) ToString = Inl (Error detail)"
  using assms by (simp add: getJobInsights_def)

theorem getJobInsights_detail_witness:
  "\<not> ok \<lparr>status = 429, statusText = ''Too Many Requests'',
           json = Inr (JObj [(''detail'', JStr ''rate limited'')])\<rparr> \<and>
   getJobInsights
     (Inr \<lparr>status = 429, statusText = ''Too Many Requests'',
           json = Inr (JObj [(''detail'', JStr ''rate limited'')])\<rparr>) (\<lambda>v. ''[object Object]'')
   = Inl (Error ''rate limited'')"
proof -
  let ?response = "\<lparr>status = 429, statusText = ''Too Many Requests'',
           json = Inr (JObj [(''detail'', JStr ''rate limited'')])\<rparr>"
  have a: "\<not> ok ?response"
    by (simp add: ok_def)
  have b: "json ?response = Inr (JObj [(''detail'', JStr ''rate limited'')])"
    by simp
  have c: "map_of (rev [(''detail'', JStr ''rate limited'')]) ''detail'' = Some (JStr ''rate limited'')"
    by simp
  have d: "''rate limited'' \<noteq> []"
    by simp
  show ?thesis
    using getJobInsights_detail [OF a b c d] a by blast
qed

text \<open>
  A \<open>detail\<close> that is the empty string is falsy, so the client falls back to the status
  text: the message is \<open>API error: Too Many Requests\<close>, not the empty \<open>detail\<close>.
\<close>

theorem getJobInsights_empty_detail_counterexample:
  "\<not> ok \<lparr>status = 429, statusText = ''Too Many Requests'',
           json = Inr (JObj [(''detail'', JStr '''')])\<rparr> \<and>
   getJobInsights
     (Inr \<lparr>status = 429, statusText = ''Too Many Requests'',
           json = Inr (JObj [(''detail'', JStr '''')])\<rparr>) (\<lambda>v. ''[object Object]'')
   = Inl (Error ''API error: Too Many Requests'') \<and>
   getJobInsights
     (Inr \<lparr>status = 429, statusText = ''Too Many Requests'',
           json = Inr (JObj [(''detail'', JStr '''')])\<rparr>) (\<lambda>v. ''[object Object]'')
   \<noteq> Inl (Error '''')"
  by (simp add: getJobInsights_def ok_def)

end
